theory Spec2Isabelle
  imports Main "HOL-Library.Sublist"
begin

section \<open>Python string and list primitives used by codexctl\<close>

text \<open>
  Python strings are modelled as \<^typ>\<open>string\<close> (character lists). The functions below
  are the library calls that \<^verbatim>\<open>src/codexctl/__init__.py\<close> makes on them:
  \<^verbatim>\<open>s.startswith(p)\<close>, \<^verbatim>\<open>s.split("\n")\<close>, \<^verbatim>\<open>"\n".join(xs)\<close>,
  \<^verbatim>\<open>xs.insert(i, x)\<close> for a non-negative index, and the decimal rendering of an
  integer inside an f-string.
\<close>

definition startswith :: "string \<Rightarrow> string \<Rightarrow> bool" where
  "startswith s p = (take (length p) s = p)"

text \<open>
  \<^verbatim>\<open>s.split("\n")\<close>: the pieces between line feeds; the empty string gives one empty
  piece, and a trailing line feed gives a last empty piece. The result is never the
  empty list, so the first case of the \<open>case\<close> below is never taken.
\<close>

fun split_nl :: "string \<Rightarrow> string list" where
  "split_nl [] = [[]]"
| "split_nl (c # cs) =
     (if c = CHR 0x0A then [] # split_nl cs
      else (case split_nl cs of [] \<Rightarrow> [[c]] | l # ls \<Rightarrow> (c # l) # ls))"

fun join_nl :: "string list \<Rightarrow> string" where
  "join_nl [] = []"
| "join_nl [x] = x"
| "join_nl (x # y # ys) = x @ CHR 0x0A # join_nl (y # ys)"

text \<open>
  \<^verbatim>\<open>xs.insert(i, x)\<close> with \<open>i \<ge> 0\<close>: the element goes before position \<open>i\<close>, and
  at the end when \<open>i\<close> is past the end (which \<open>take\<close> and \<open>drop\<close> give as well).
\<close>

definition list_insert :: "nat \<Rightarrow> 'a \<Rightarrow> 'a list \<Rightarrow> 'a list" where
  "list_insert i x xs = take i xs @ x # drop i xs"

fun str_nat :: "nat \<Rightarrow> string" where
  "str_nat n =
     (if n < 10 then [''0123456789'' ! n]
      else str_nat (n div 10) @ [''0123456789'' ! (n mod 10)])"

declare str_nat.simps [simp del]

definition str_int :: "int \<Rightarrow> string" where
  "str_int i = (if i < 0 then CHR ''-'' # str_nat (nat (- i)) else str_nat (nat i))"


section \<open>The configuration patch: \<^verbatim>\<open>set_server_config\<close> and \<^verbatim>\<open>edit_config\<close>\<close>

text \<open>
  One iteration of the \<^verbatim>\<open>for i in range(0, len(data_attributes))\<close> loop of
  \<^verbatim>\<open>set_server_config\<close> (lines 149 to 157). The loop state is the list being mutated
  and the variable \<^verbatim>\<open>line\<close>. The list keeps its length, so \<open>data_attributes ! i\<close> is
  always read inside the list.
\<close>

definition comment_step :: "nat \<Rightarrow> string list \<times> nat \<Rightarrow> string list \<times> nat" where
  "comment_step i st =
     (case st of (data_attributes, line) \<Rightarrow>
        (let line' = (if startswith (data_attributes ! i) ''[General]'' then i + 1 else line)
         in if \<not> startswith (data_attributes ! i) ''SERVER='' then (data_attributes, line')
            else (data_attributes[i := CHR ''#'' # data_attributes ! i], line')))"

text \<open>
  \<^verbatim>\<open>set_server_config(contents, server_host_name)\<close>, lines 143 to 164: split, run the
  loop from \<^verbatim>\<open>line = 0\<close>, insert the new line at \<^verbatim>\<open>line\<close>, join.
\<close>

definition set_server_config :: "string \<Rightarrow> string \<Rightarrow> string" where
  "set_server_config contents server_host_name =
     (let data_attributes = split_nl contents
      in case fold comment_step [0..<length data_attributes] (data_attributes, 0) of
           (data_attributes', line) \<Rightarrow>
             join_nl (list_insert line (''SERVER='' @ server_host_name) data_attributes'))"

text \<open>
  Line 185 of \<^verbatim>\<open>edit_config\<close>:
  \<^verbatim>\<open>server_host_name = f"http://{server_ip}:{port}"\<close>.
\<close>

definition server_host_name :: "string \<Rightarrow> int \<Rightarrow> string" where
  "server_host_name server_ip port = ''http://'' @ server_ip @ '':'' @ str_int port"

text \<open>
  \<^verbatim>\<open>edit_config\<close> reads \<^verbatim>\<open>/usr/share/remarkable/update.conf\<close> (directly, or over
  SFTP when a remote session is given), patches the text and writes it back. Both
  branches compute the same new file contents from the old ones.
\<close>

definition edit_config :: "string \<Rightarrow> int \<Rightarrow> string \<Rightarrow> string" where
  "edit_config server_ip port update_conf =
     set_server_config update_conf (server_host_name server_ip port)"

text \<open>The lines of a document that begin with \<^verbatim>\<open>SERVER=\<close>: its active server lines.\<close>

definition active_server_lines :: "string \<Rightarrow> string list" where
  "active_server_lines doc = filter (\<lambda>l. startswith l ''SERVER='') (split_nl doc)"

text \<open>What the loop does to one line: a line that begins with \<^verbatim>\<open>SERVER=\<close> gets a \<^verbatim>\<open>#\<close>.\<close>

definition deactivate :: "string \<Rightarrow> string" where
  "deactivate l = (if startswith l ''SERVER='' then CHR ''#'' # l else l)"


section \<open>Errors, operator input and effects\<close>

text \<open>
  The exceptions the modelled functions raise or let through. \<open>CatalogError\<close> stands for
  an exception raised inside the version catalog (\<^verbatim>\<open>updates.py\<close>, which is not part of
  the sources at hand); \<open>ConnectError\<close> for an exception of the SSH library other than
  its authentication exception; \<open>EOFError\<close> is what \<^verbatim>\<open>input()\<close> raises when the
  operator's input has ended.
\<close>

datatype error =
    SystemExit string
  | SystemError string
  | CalledProcessError int
  | EOFError
  | ConnectError string
  | CatalogError string

text \<open>The commands the workflows run, on the device itself or over the SSH session.\<close>

datatype command =
    RestoreScript
  | ShutdownNow
  | StartUpdateEngine
  | UpdateEngineClient
  | ReachabilityProbe string

datatype credential = KeyFile string | Password string

datatype connect_outcome = Connected | AuthenticationException | OtherException string

text \<open>
  What a run does that an observer can see, in order: a line printed, a prompt shown by
  \<^verbatim>\<open>input()\<close>, a command run locally (\<open>Run\<close>) or on the device bound to an address
  (\<open>Exec\<close>), and the start of the daemon thread that serves the update files. The
  sources contain no call that stops that thread, so there is no event for it.
\<close>

datatype event =
    Print string
  | Input string
  | Run command
  | Exec string command
  | ServerThreadStart string

text \<open>
  A computation takes the operator's remaining input lines and the events so far, and
  returns an exception or a value, with the input left and the events extended.
\<close>

type_synonym 'a outcome = "(error + 'a) \<times> string list \<times> event list"

definition bind_io ::
  "'a outcome \<Rightarrow> ('a \<Rightarrow> string list \<Rightarrow> event list \<Rightarrow> 'b outcome) \<Rightarrow> 'b outcome" where
  "bind_io m f =
     (case m of
        (Inl e, inp, ev) \<Rightarrow> (Inl e, inp, ev)
      | (Inr x, inp, ev) \<Rightarrow> f x inp ev)"

definition events_of :: "'a outcome \<Rightarrow> event list" where
  "events_of m = snd (snd m)"

definition py_input :: "string \<Rightarrow> string list \<Rightarrow> event list \<Rightarrow> string outcome" where
  "py_input prompt inp ev =
     (case inp of
        [] \<Rightarrow> (Inl EOFError, [], ev @ [Input prompt])
      | l # ls \<Rightarrow> (Inr l, ls, ev @ [Input prompt]))"

text \<open>\<^verbatim>\<open>s.lower()\<close> on ASCII letters; other bytes are left as they are.\<close>

definition lower_char :: "char \<Rightarrow> char" where
  "lower_char c =
     (case map_of (zip ''ABCDEFGHIJKLMNOPQRSTUVWXYZ'' ''abcdefghijklmnopqrstuvwxyz'') c of
        None \<Rightarrow> c
      | Some l \<Rightarrow> l)"

definition lower :: "string \<Rightarrow> string" where
  "lower s = map lower_char s"

text \<open>
  The environment of a run: the command line's \<^verbatim>\<open>--auth\<close> value, the file system test
  \<^verbatim>\<open>os.path.isfile\<close>, what an SSH connection attempt to an address with a credential
  gives, the interface table of \<^verbatim>\<open>psutil.net_if_addrs()\<close> (\<open>None\<close> when importing or
  calling it raises), \<^verbatim>\<open>REMOTE_DEPS_MET\<close>, \<^verbatim>\<open>is_rm()\<close>, and the exit status and the
  standard error text of each command.
\<close>

datatype address_family = AF_INET | AF_INET6 | AF_PACKET

record world =
  auth :: "string option"
  isfile :: "string \<Rightarrow> bool"
  ssh_connect :: "string \<Rightarrow> credential \<Rightarrow> connect_outcome"
  net_if_addrs :: "(string \<times> (address_family \<times> string) list) list option"
  remote_deps_met :: bool
  is_rm :: bool
  exit_status :: "command \<Rightarrow> int"
  stderr_text :: "command \<Rightarrow> string"


section \<open>Version resolution: \<^verbatim>\<open>version_lookup\<close>\<close>

text \<open>
  The global \<^verbatim>\<open>updateman\<close> is an object of \<^verbatim>\<open>updates.py\<close>, which is not among the
  sources; \<^verbatim>\<open>version_lookup\<close> uses four of its members, taken here as parameters.
  \<open>get_latest_version\<close> gives a version, or the message of whatever it raises.
\<close>

record 'v update_manager =
  get_latest_version :: "int \<Rightarrow> string + string"
  latest_toltec_version :: string
  id_lookups_rm1 :: "string \<rightharpoonup> 'v"
  id_lookups_rm2 :: "string \<rightharpoonup> 'v"

text \<open>\<^verbatim>\<open>version_lookup(version, device)\<close>, lines 68 to 87.\<close>

definition version_lookup :: "'v update_manager \<Rightarrow> string \<Rightarrow> int \<Rightarrow> error + string" where
  "version_lookup updateman version device =
     (if version = ''latest'' then
        (case get_latest_version updateman device of
           Inl msg \<Rightarrow> Inl (CatalogError msg)
         | Inr v \<Rightarrow> Inr v)
      else if version = ''toltec'' then Inr (latest_toltec_version updateman)
      else
        (case (if device = 2 then Inr (id_lookups_rm2 updateman)
               else if device = 1 then Inr (id_lookups_rm1 updateman)
               else Inl (SystemError ''Error: Invalid device given!'')) of
           Inl e \<Rightarrow> Inl e
         | Inr version_dict \<Rightarrow>
             if version \<in> dom version_dict then Inr version
             else Inl (SystemExit
               ''Error: Invalid version! Examples: latest, toltec, 3.2.3.1595, 2.15.0.1067'')))"

text \<open>A small catalog for the concrete checks below.\<close>

definition example_updateman :: "unit update_manager" where
  "example_updateman =
     \<lparr>get_latest_version = (\<lambda>device. Inr ''3.2.3.1595''),
      latest_toltec_version = ''2.15.1.1189'',
      id_lookups_rm1 = [''2.15.0.1067'' \<mapsto> ()],
      id_lookups_rm2 = [''3.2.3.1595'' \<mapsto> ()]\<rparr>"


section \<open>The partition swap script: \<^verbatim>\<open>RESTORE_CODE\<close>\<close>

text \<open>
  The script (lines 28 to 45) reads and writes variables of the boot environment with
  \<^verbatim>\<open>fw_printenv\<close> and \<^verbatim>\<open>fw_setenv\<close>. The state is the environment, the list of the
  writes made, in order, and the lines echoed. The script has no \<^verbatim>\<open>set -e\<close> and no
  test of a status: every command runs.
\<close>

record shell_state =
  uboot_env :: "string \<rightharpoonup> string"
  setenv_log :: "(string \<times> string) list"
  echoed :: "string list"

definition fw_setenv :: "string \<Rightarrow> string \<Rightarrow> shell_state \<Rightarrow> shell_state" where
  "fw_setenv name val s =
     s\<lparr>uboot_env := (uboot_env s)(name \<mapsto> val), setenv_log := setenv_log s @ [(name, val)]\<rparr>"

text \<open>
  An empty value is kept here as an empty value. The statements below read a variable
  that may be empty through \<open>fw_printenv\<close>, for which an empty variable and an absent
  one are the same.
\<close>

text \<open>
  \<^verbatim>\<open>$(/sbin/fw_printenv -n name)\<close>: the value, or nothing when the variable is not set.
  A command substitution drops the line feeds at the end of what the command prints.
\<close>

definition strip_trailing_newlines :: "string \<Rightarrow> string" where
  "strip_trailing_newlines v = rev (dropWhile (\<lambda>c. c = CHR 0x0A) (rev v))"

definition fw_printenv :: "string \<Rightarrow> shell_state \<Rightarrow> string" where
  "fw_printenv name s =
     (case uboot_env s name of None \<Rightarrow> [] | Some v \<Rightarrow> strip_trailing_newlines v)"

definition echo :: "string \<Rightarrow> shell_state \<Rightarrow> shell_state" where
  "echo l s = s\<lparr>echoed := echoed s @ [l]\<rparr>"

text \<open>
  In the test \<^verbatim>\<open>[ $OLDPART == "2" ]\<close> the variable is not quoted, so the shell (bash:
  the script is run with \<^verbatim>\<open>/bin/bash -l -c\<close>) splits its value into words at blanks,
  tabs and line feeds, and expands each word that holds a pattern character into the
  matching file names. The words, then \<^verbatim>\<open>==\<close> and \<^verbatim>\<open>2\<close>, are the arguments of the
  test. Over SSH the script runs in the login shell of the device, taken to be the same
  shell.

  Two things depend on the machine and are parameters: what a word with a pattern
  character expands to (the matching file names, or the word itself when no file
  matches), and what the test makes of an argument list that needs its expression
  parser, where operators can look at files.
\<close>

record shell =
  pathname_expansion :: "string \<Rightarrow> string list"
  test_expression :: "string list \<Rightarrow> bool"

definition is_ifs :: "char \<Rightarrow> bool" where
  "is_ifs c = (c = CHR 0x20 \<or> c = CHR 0x09 \<or> c = CHR 0x0A)"

definition is_glob_char :: "char \<Rightarrow> bool" where
  "is_glob_char c = (c = CHR ''*'' \<or> c = CHR ''?'' \<or> c = CHR ''['' \<or> c = CHR 0x5C)"

text \<open>
  Field splitting: \<open>fields_from w cs\<close> goes through the characters \<open>cs\<close> with the word
  \<open>w\<close> read so far; blanks, tabs and line feeds end a word and are dropped.
\<close>

fun fields_from :: "string \<Rightarrow> string \<Rightarrow> string list" where
  "fields_from w [] = (if w = [] then [] else [w])"
| "fields_from w (c # cs) =
     (if is_ifs c then (if w = [] then fields_from [] cs else w # fields_from [] cs)
      else fields_from (w @ [c]) cs)"

definition split_fields :: "string \<Rightarrow> string list" where
  "split_fields v = fields_from [] v"

definition unquoted_words :: "shell \<Rightarrow> string \<Rightarrow> string list" where
  "unquoted_words sh v =
     concat (map (\<lambda>w. if list_ex is_glob_char w then pathname_expansion sh w else [w])
               (split_fields v))"

text \<open>
  The test on the words \<open>ws\<close> of the value. With no word the arguments are
  \<^verbatim>\<open>== 2\<close>, which is malformed: the test fails with status 2. With one word the test
  compares it with \<^verbatim>\<open>2\<close> as a string. With two words of which the first is \<^verbatim>\<open>!\<close>
  the test is the negation of the comparison of the second word with \<^verbatim>\<open>2\<close>. Every
  other list goes to the expression parser.
\<close>

definition test_eq_2 :: "shell \<Rightarrow> string list \<Rightarrow> bool" where
  "test_eq_2 sh ws =
     (if ws = [] then False
      else if length ws = 1 then hd ws = ''2''
      else if length ws = 2 \<and> hd ws = ''!'' then ws ! 1 \<noteq> ''2''
      else test_expression sh (ws @ [''=='', ''2'']))"

definition RESTORE_CODE :: "shell \<Rightarrow> shell_state \<Rightarrow> shell_state" where
  "RESTORE_CODE sh s0 =
     (let s1 = fw_setenv ''upgrade_available'' ''1'' s0;
          s2 = fw_setenv ''bootcount'' ''0'' s1;
          OLDPART = fw_printenv ''active_partition'' s2;
          NEWPART = (if test_eq_2 sh (unquoted_words sh OLDPART) then ''3'' else ''2'');
          s3 = echo (''new: '' @ NEWPART) s2;
          s4 = echo (''fallback: '' @ OLDPART) s3;
          s5 = fw_setenv ''fallback_partition'' OLDPART s4
      in fw_setenv ''active_partition'' NEWPART s5)"

text \<open>
  A value that the shell leaves as one word: not empty, and without a blank, a tab, a
  line feed or a pattern character.
\<close>

definition plain_word :: "string \<Rightarrow> bool" where
  "plain_word v = (v \<noteq> [] \<and> \<not> list_ex (\<lambda>c. is_ifs c \<or> is_glob_char c) v)"

text \<open>
  A shell for the concrete checks below, in a directory where no file name matches a
  pattern. None of the checks reaches the expression parser.
\<close>

definition example_shell :: shell where
  "example_shell = \<lparr>pathname_expansion = (\<lambda>w. [w]), test_expression = (\<lambda>args. False)\<rparr>"

text \<open>A device whose boot environment has the active partition set to \<open>p\<close>.\<close>

definition booted_from :: "string \<Rightarrow> shell_state" where
  "booted_from p =
     \<lparr>uboot_env = [''active_partition'' \<mapsto> p], setenv_log = [], echoed = []\<rparr>"


section \<open>Finding the host address: \<^verbatim>\<open>get_host_ip\<close>\<close>

text \<open>
  Lines 48 to 65. The inner loop over the addresses of one interface either returns
  from the function (\<open>Inl\<close>, at the first IPv4 address that starts with \<^verbatim>\<open>10.11.99\<close>)
  or goes on with the list collected so far (\<open>Inr\<close>).
\<close>

fun scan_snics ::
  "(address_family \<times> string) list \<Rightarrow> string list \<Rightarrow> string list + string list" where
  "scan_snics [] possible_ips = Inr possible_ips"
| "scan_snics (snic # snics) possible_ips =
     (if fst snic = AF_INET then
        (if startswith (snd snic) ''10.11.99'' then Inl [snd snic]
         else scan_snics snics (possible_ips @ [snd snic]))
      else scan_snics snics possible_ips)"

fun scan_interfaces ::
  "(string \<times> (address_family \<times> string) list) list \<Rightarrow> string list \<Rightarrow> string list" where
  "scan_interfaces [] possible_ips = possible_ips"
| "scan_interfaces (item # items) possible_ips =
     (case scan_snics (snd item) possible_ips of
        Inl found \<Rightarrow> found
      | Inr possible_ips' \<Rightarrow> scan_interfaces items possible_ips')"

definition get_host_ip :: "world \<Rightarrow> string list" where
  "get_host_ip W =
     (case net_if_addrs W of None \<Rightarrow> [] | Some items \<Rightarrow> scan_interfaces items [])"


section \<open>Asking for the device and connecting: \<^verbatim>\<open>get_remarkable_ip\<close>, \<^verbatim>\<open>connect_to_rm\<close>\<close>

text \<open>
  \<^verbatim>\<open>get_remarkable_ip\<close>, lines 213 to 219. Each round of the loop reads two lines, so
  the loop ends when an answer other than \<^verbatim>\<open>n\<close> is given or the input runs out.
\<close>

fun get_remarkable_ip :: "string list \<Rightarrow> event list \<Rightarrow> string outcome" where
  "get_remarkable_ip [] ev =
     (Inl EOFError, [], ev @ [Input ''Please enter the IP of the remarkable device: ''])"
| "get_remarkable_ip [remote_ip] ev =
     (Inl EOFError, [],
      ev @ [Input ''Please enter the IP of the remarkable device: '',
            Input ''Are you sure? (Y/n) ''])"
| "get_remarkable_ip (remote_ip # answer # inp) ev =
     (let ev' = ev @ [Input ''Please enter the IP of the remarkable device: '',
                      Input ''Are you sure? (Y/n) '']
      in if lower answer \<noteq> ''n'' then (Inr remote_ip, inp, ev')
         else get_remarkable_ip inp ev')"

text \<open>
  The two \<^verbatim>\<open>while True\<close> loops of \<^verbatim>\<open>connect_to_rm\<close> (lines 111 to 125 and 127 to
  137). The session that is returned is modelled by the address it is bound to. The
  message of line 122 is not an f-string and is printed as it stands.
\<close>

fun key_loop :: "world \<Rightarrow> string \<Rightarrow> string list \<Rightarrow> event list \<Rightarrow> string outcome" where
  "key_loop W ip [] ev = (Inl EOFError, [], ev @ [Input ''Enter path to SSH key: ''])"
| "key_loop W ip (key_path # inp) ev =
     (let ev' = ev @ [Input ''Enter path to SSH key: '']
      in if \<not> isfile W key_path then key_loop W ip inp (ev' @ [Print ''Invalid path given''])
         else
           (case ssh_connect W ip (KeyFile key_path) of
              Connected \<Rightarrow> (Inr ip, inp, ev')
            | AuthenticationException \<Rightarrow>
                key_loop W ip inp (ev' @ [Print ''Error while connecting to device: {error}''])
            | OtherException msg \<Rightarrow>
                key_loop W ip inp (ev' @ [Print ''Error while connecting to device: {error}''])))"

fun password_loop :: "world \<Rightarrow> string \<Rightarrow> string list \<Rightarrow> event list \<Rightarrow> string outcome" where
  "password_loop W ip [] ev = (Inl EOFError, [], ev @ [Input ''Enter RM SSH password: ''])"
| "password_loop W ip (password # inp) ev =
     (let ev' = ev @ [Input ''Enter RM SSH password: '']
      in case ssh_connect W ip (Password password) of
           Connected \<Rightarrow> (Inr ip, inp, ev')
         | AuthenticationException \<Rightarrow>
             password_loop W ip inp (ev' @ [Print ''Incorrect password given''])
         | OtherException msg \<Rightarrow> (Inl (ConnectError msg), inp, ev'))"

text \<open>
  The first part of \<^verbatim>\<open>connect_to_rm\<close> (lines 94 to 108), run when \<^verbatim>\<open>args.auth\<close> is
  given and not empty: \<open>Some\<close> of an outcome when the function returns or raises there,
  \<open>None\<close> with the events when it goes on to ask the operator.
\<close>

definition connect_with_auth ::
  "world \<Rightarrow> string \<Rightarrow> string list \<Rightarrow> event list \<Rightarrow> string outcome option \<times> event list" where
  "connect_with_auth W ip inp ev =
     (case auth W of
        None \<Rightarrow> (None, ev)
      | Some a \<Rightarrow>
          if a = [] then (None, ev)
          else
            (case ssh_connect W ip (if isfile W a then KeyFile a else Password a) of
               Connected \<Rightarrow> (Some (Inr ip, inp, ev @ [Print ''Connected to device'']), ev)
             | AuthenticationException \<Rightarrow>
                 (None, ev @ [Print ''Incorrect password or ssh path given in arguments!''])
             | OtherException msg \<Rightarrow> (Some (Inl (ConnectError msg), inp, ev), ev)))"

text \<open>\<^verbatim>\<open>connect_to_rm(args, ip)\<close>, lines 90 to 140.\<close>

definition connect_to_rm :: "world \<Rightarrow> string \<Rightarrow> string list \<Rightarrow> event list \<Rightarrow> string outcome" where
  "connect_to_rm W ip inp ev =
     (case connect_with_auth W ip inp ev of
        (Some done, _) \<Rightarrow> done
      | (None, ev1) \<Rightarrow>
          bind_io (py_input ''Would you like to use a password to connect? (Y/n): '' inp ev1)
            (\<lambda>answer inp ev.
               bind_io (if CHR ''n'' \<in> set (lower answer) then key_loop W ip inp ev
                        else password_loop W ip inp ev)
                 (\<lambda>client inp ev. (Inr client, inp, ev @ [Print ''Connected to device'']))))"


section \<open>The restore workflow: \<^verbatim>\<open>do_restore\<close>\<close>

text \<open>
  \<^verbatim>\<open>subprocess.run(..., check=True)\<close>: the command runs, and a status other than zero
  raises \<^verbatim>\<open>CalledProcessError\<close>.
\<close>

definition subprocess_run_check ::
  "world \<Rightarrow> command \<Rightarrow> string list \<Rightarrow> event list \<Rightarrow> unit outcome" where
  "subprocess_run_check W cmd inp ev =
     (if exit_status W cmd \<noteq> 0 then (Inl (CalledProcessError (exit_status W cmd)), inp, ev @ [Run cmd])
      else (Inr (), inp, ev @ [Run cmd]))"

text \<open>
  \<^verbatim>\<open>do_restore(args)\<close>, lines 513 to 553. On the remote path the status that
  \<^verbatim>\<open>recv_exit_status()\<close> returns (line 549) is not bound to a name and not looked at.
\<close>

definition do_restore :: "world \<Rightarrow> string list \<Rightarrow> event list \<Rightarrow> unit outcome" where
  "do_restore W inp ev =
     bind_io (py_input ''Are you sure you want to restore? (y/N): '' inp ev)
       (\<lambda>answer inp ev.
          if CHR ''y'' \<notin> set (lower answer) then (Inl (SystemExit ''Aborted!!!''), inp, ev)
          else if isfile W ''/usr/share/remarkable/update.conf'' then
            bind_io (subprocess_run_check W RestoreScript inp ev)
              (\<lambda>_ inp ev.
                 bind_io (py_input ''Done! Would you like to shutdown? (y/N): '' inp ev)
                   (\<lambda>answer inp ev.
                      if CHR ''y'' \<in> set (lower answer) then subprocess_run_check W ShutdownNow inp ev
                      else (Inr (), inp, ev)))
          else if \<not> remote_deps_met W then
            (Inl (SystemExit
               (''Error: Detected as running on the remote device, but could not resolve dependencies. '' @
                ''Please install them with '' @ [CHR 0x22] @ ''pip install -r requirements.txt'' @
                [CHR 0x22])), inp, ev)
          else
            bind_io
              (if length (get_host_ip W) = 1
               then (Inr ''10.11.99.1'', inp, ev @ [Print ''Detected as USB connection''])
               else get_remarkable_ip inp (ev @ [Print ''Detected as WiFi connection'']))
              (\<lambda>remote_ip inp ev.
                 bind_io (connect_to_rm W remote_ip inp ev)
                   (\<lambda>remarkable_remote inp ev.
                      (Inr (), inp,
                       ev @ [Exec remarkable_remote RestoreScript,
                             Print ''Done, Please reboot the device!'']))))"


text \<open>
  A workstation for the concrete checks below: a loopback interface and the USB
  interface of the device, SSH dependencies present, connections accepted, every
  command ending with status 0.
\<close>

definition workstation_usb :: world where
  "workstation_usb =
     \<lparr>auth = Some ''secret'',
      isfile = (\<lambda>p. False),
      ssh_connect = (\<lambda>ip c. Connected),
      net_if_addrs =
        Some [(''lo'', [(AF_INET, ''127.0.0.1'')]),
              (''usb0'', [(AF_PACKET, ''aa:bb:cc:dd:ee:ff''), (AF_INET, ''10.11.99.2'')])],
      remote_deps_met = True,
      is_rm = False,
      exit_status = (\<lambda>c. 0),
      stderr_text = (\<lambda>c. [])\<rparr>"


text \<open>
  The same workstation on a wireless network, without the USB interface, and the
  workstation with an update client that fails on the device.
\<close>

definition workstation_wifi :: world where
  "workstation_wifi =
     workstation_usb\<lparr>net_if_addrs :=
       Some [(''lo'', [(AF_INET, ''127.0.0.1'')]), (''wlan0'', [(AF_INET, ''192.168.1.5'')])]\<rparr>"

definition workstation_update_fails :: world where
  "workstation_update_fails =
     workstation_usb\<lparr>exit_status := (\<lambda>c. if c = UpdateEngineClient then 1 else 0),
       stderr_text := (\<lambda>c. if c = UpdateEngineClient then ''payload hash mismatch'' else [])\<rparr>"


section \<open>The install workflow: two parts of \<^verbatim>\<open>do_install\<close>\<close>

text \<open>
  The loop of lines 414 to 425, which asks for the workstation's address until the
  operator gives one of the listed addresses and does not answer with an \<^verbatim>\<open>n\<close>.
\<close>

fun ask_server_host :: "string list \<Rightarrow> string list \<Rightarrow> event list \<Rightarrow> string outcome" where
  "ask_server_host listed [] ev =
     (Inl EOFError, [],
      ev @ [Input ''\<newline>Please enter your IP for the network the device is connected to: ''])"
| "ask_server_host listed (server_host # inp) ev =
     (let ev' = ev @ [Input ''\<newline>Please enter your IP for the network the device is connected to: '']
      in if server_host \<notin> set listed
         then ask_server_host listed inp (ev' @ [Print ''Error: Invalid IP given''])
         else
           (case inp of
              [] \<Rightarrow> (Inl EOFError, [], ev' @ [Input ''Are you sure? (Y/n): ''])
            | answer # inp' \<Rightarrow>
                if CHR ''n'' \<in> set (lower answer)
                then ask_server_host listed inp' (ev' @ [Input ''Are you sure? (Y/n): ''])
                else (Inr server_host, inp', ev' @ [Input ''Are you sure? (Y/n): ''])))"

text \<open>
  Lines 386 to 429 of \<^verbatim>\<open>do_install\<close>: the choice of the server host and of the
  session. The result is \<^verbatim>\<open>server_host\<close> and \<^verbatim>\<open>remarkable_remote\<close> (\<open>None\<close> on the
  device itself, else the address the session is bound to). \<^verbatim>\<open>get_host_ip\<close> never
  returns \<^verbatim>\<open>None\<close>, so the test of line 400 is never true and is left out.
\<close>

definition do_install_topology ::
  "world \<Rightarrow> string list \<Rightarrow> event list \<Rightarrow> (string \<times> string option) outcome" where
  "do_install_topology W inp ev =
     (if is_rm W then (Inr (''0.0.0.0'', None), inp, ev)
      else if \<not> remote_deps_met W then
        (Inl (SystemExit
           (''Error: Detected as running on the remote device, but could not resolve dependencies. '' @
            ''Please install them with '' @ [CHR 0x22] @ ''pip install -r requirements.txt'')),
         inp, ev)
      else
        (let server_host = get_host_ip W
         in if length server_host = 1 then
              bind_io (connect_to_rm W ''10.11.99.1'' inp ev)
                (\<lambda>remarkable_remote inp ev.
                   (Inr (server_host ! 0, Some remarkable_remote), inp, ev))
            else
              (let host_interfaces = join_nl server_host
               in bind_io
                    (ask_server_host (split_nl host_interfaces) inp
                       (ev @ [Print (''\<newline>'' @ host_interfaces @
                          ''\<newline>Could not find USB interface, assuming connected over WiFi (interfaces list above)'')]))
                    (\<lambda>server_host inp ev.
                       bind_io (get_remarkable_ip inp ev)
                         (\<lambda>remote_ip inp ev.
                            bind_io (connect_to_rm W remote_ip inp ev)
                              (\<lambda>remarkable_remote inp ev.
                                 (Inr (server_host, Some remarkable_remote), inp, ev)))))))"

text \<open>
  Lines 438 to 505 of \<^verbatim>\<open>do_install\<close>: the server thread is started, then the update
  is triggered, locally when \<^verbatim>\<open>remarkable_remote\<close> is \<open>None\<close> and over the session
  otherwise. \<^verbatim>\<open>"".join(stderr.readlines())\<close> is the whole standard error text of the
  update client. Nothing in these lines, nor in the three lines that follow them in
  the function, stops the thread.
\<close>

definition do_install_update ::
  "world \<Rightarrow> string \<Rightarrow> string option \<Rightarrow> string list \<Rightarrow> event list \<Rightarrow> unit outcome" where
  "do_install_update W server_host remarkable_remote inp ev0 =
     (let ev = ev0 @ [ServerThreadStart server_host]
      in case remarkable_remote of
           None \<Rightarrow>
             bind_io (subprocess_run_check W StartUpdateEngine inp
                        (ev @ [Print ''Enabling update service'']))
               (\<lambda>_ inp ev.
                  if exit_status W UpdateEngineClient \<noteq> 0 then
                    (Inl (SystemExit ''There was an error updating :(''), inp,
                     ev @ [Run UpdateEngineClient, Print (stderr_text W UpdateEngineClient)])
                  else
                    bind_io (py_input ''Done! Would you like to shutdown? (y/N): '' inp
                               (ev @ [Run UpdateEngineClient]))
                      (\<lambda>answer inp ev.
                         if CHR ''y'' \<in> set (lower answer)
                         then subprocess_run_check W ShutdownNow inp ev
                         else (Inr (), inp, ev)))
         | Some remote \<Rightarrow>
             (let ev1 = ev @ [Print ''Checking if device can reach server'',
                              Exec remote (ReachabilityProbe server_host)]
              in if exit_status W (ReachabilityProbe server_host) \<noteq> 0 then
                   (Inl (SystemExit
                      ''Device cannot reach server! Is the firewall blocking connections?''),
                    inp, ev1)
                 else
                   (let ev2 = ev1 @ [Print ''Starting update service on device'',
                                     Exec remote StartUpdateEngine,
                                     Exec remote UpdateEngineClient]
                    in if exit_status W UpdateEngineClient \<noteq> 0 then
                         (Inl (SystemExit ''There was an error updating :(''), inp,
                          ev2 @ [Print (stderr_text W UpdateEngineClient)])
                       else
                         (Inr (), inp,
                          ev2 @ [Print ''Success! Please restart the reMarkable device!'']))))"

text \<open>
  Whether the server thread runs after a list of events: it does once it has been
  started, since no event stops it.
\<close>

fun server_thread_running :: "event list \<Rightarrow> bool" where
  "server_thread_running [] = False"
| "server_thread_running (ServerThreadStart h # evs) = True"
| "server_thread_running (e # evs) = server_thread_running evs"

text \<open>
  The IPv4 addresses of an interface table, in the order of enumeration, and the test
  for the USB subnet that \<^verbatim>\<open>get_host_ip\<close> makes.
\<close>

definition ipv4_addresses ::
  "(string \<times> (address_family \<times> string) list) list \<Rightarrow> string list" where
  "ipv4_addresses items =
     concat (map (\<lambda>item. map snd (filter (\<lambda>snic. fst snic = AF_INET) (snd item))) items)"

definition in_usb_subnet :: "string \<Rightarrow> bool" where
  "in_usb_subnet a = startswith a ''10.11.99''"


section \<open>Facts about the string primitives\<close>

lemma split_nl_not_Nil: "split_nl s \<noteq> []"
  by (induction s) (auto split: list.splits)

lemma split_nl_no_newline: "l \<in> set (split_nl s) \<Longrightarrow> CHR 0x0A \<notin> set l"
proof (induction s arbitrary: l)
  case Nil
  then show ?case by simp
next
  case (Cons c cs)
  show ?case
  proof (cases "c = CHR 0x0A")
    case True
    with Cons show ?thesis by auto
  next
    case False
    obtain x xs where sp: "split_nl cs = x # xs"
      using split_nl_not_Nil [of cs] by (cases "split_nl cs") auto
    from Cons.prems False sp have "l = c # x \<or> l \<in> set xs" by simp
    then show ?thesis
    proof
      assume "l = c # x"
      moreover have "CHR 0x0A \<notin> set x" using Cons.IH [of x] sp by simp
      ultimately show ?thesis using False by auto
    next
      assume "l \<in> set xs"
      then show ?thesis using Cons.IH [of l] sp by simp
    qed
  qed
qed

lemma split_nl_plain: "CHR 0x0A \<notin> set l \<Longrightarrow> split_nl l = [l]"
  by (induction l) auto

lemma split_nl_append_newline:
  "CHR 0x0A \<notin> set l \<Longrightarrow> split_nl (l @ CHR 0x0A # rest) = l # split_nl rest"
  by (induction l) auto

lemma split_nl_join_nl:
  "ls \<noteq> [] \<Longrightarrow> list_all (\<lambda>l. CHR 0x0A \<notin> set l) ls \<Longrightarrow> split_nl (join_nl ls) = ls"
proof (induction ls rule: join_nl.induct)
  case 1
  then show ?case by simp
next
  case (2 x)
  then show ?case by (simp add: split_nl_plain)
next
  case (3 x y ys)
  then show ?case by (simp add: split_nl_append_newline)
qed

lemma join_nl_Cons: "ls \<noteq> [] \<Longrightarrow> join_nl (x # ls) = x @ CHR 0x0A # join_nl ls"
  by (cases ls) auto

lemma str_nat_no_newline: "CHR 0x0A \<notin> set (str_nat n)"
proof (induction n rule: str_nat.induct)
  case (1 n)
  have digit: "k < 10 \<Longrightarrow> ''0123456789'' ! k \<noteq> CHR 0x0A" for k :: nat
  proof -
    assume "k < 10"
    then have "k \<in> {0, 1, 2, 3, 4, 5, 6, 7, 8, 9}" by auto
    then show ?thesis by auto
  qed
  show ?case
  proof (cases "n < 10")
    case True
    then show ?thesis using digit [of n] by (simp add: str_nat.simps [of n])
  next
    case False
    then show ?thesis
      using 1 digit [of "n mod 10"] by (simp add: str_nat.simps [of n])
  qed
qed

lemma str_int_no_newline: "CHR 0x0A \<notin> set (str_int i)"
  by (simp add: str_int_def str_nat_no_newline)

lemma server_host_name_no_newline:
  "CHR 0x0A \<notin> set server_ip \<Longrightarrow> CHR 0x0A \<notin> set (server_host_name server_ip port)"
  by (simp add: server_host_name_def str_int_no_newline)


section \<open>The loop of \<^verbatim>\<open>set_server_config\<close> in closed form\<close>

lemma startswith_hash: "\<not> startswith (CHR ''#'' # l) ''SERVER=''"
  by (simp add: startswith_def)

lemma startswith_server: "startswith (''SERVER='' @ h) ''SERVER=''"
  by (simp add: startswith_def)

lemma deactivate_inactive: "\<not> startswith (deactivate l) ''SERVER=''"
  by (simp add: deactivate_def startswith_hash)

lemma deactivate_no_newline: "CHR 0x0A \<notin> set l \<Longrightarrow> CHR 0x0A \<notin> set (deactivate l)"
  by (simp add: deactivate_def)

lemma comment_step_fst:
  "i < length (fst st) \<Longrightarrow>
   fst (comment_step i st) = (fst st)[i := deactivate (fst st ! i)]"
  by (cases st) (simp add: comment_step_def deactivate_def Let_def)

lemma comment_step_snd:
  "snd (comment_step i st) =
     (if startswith (fst st ! i) ''[General]'' then i + 1 else snd st)"
  by (cases st) (simp add: comment_step_def Let_def)

lemma list_all_take: "list_all P xs \<Longrightarrow> list_all P (take n xs)"
proof -
  assume "list_all P xs"
  then have "list_all P (take n xs @ drop n xs)" by simp
  then show ?thesis by (simp only: list_all_append)
qed

lemma list_all_drop: "list_all P xs \<Longrightarrow> list_all P (drop n xs)"
proof -
  assume "list_all P xs"
  then have "list_all P (take n xs @ drop n xs)" by simp
  then show ?thesis by (simp only: list_all_append)
qed

lemma loop_fst:
  "n \<le> length xs \<Longrightarrow>
   fst (fold comment_step [0..<n] (xs, k)) = map deactivate (take n xs) @ drop n xs"
proof (induction n)
  case 0
  then show ?case by simp
next
  case (Suc n)
  then have n: "n < length xs" by simp
  let ?st = "fold comment_step [0..<n] (xs, k)"
  let ?ys = "map deactivate (take n xs) @ drop n xs"
  have ih: "fst ?st = ?ys" using Suc by simp
  have at: "?ys ! n = xs ! n" using n by (simp add: nth_append)
  have len: "n < length (fst ?st)" using n by (simp add: ih)
  have d: "drop n xs = xs ! n # drop (Suc n) xs" using n by (simp add: Cons_nth_drop_Suc)
  have "fst (fold comment_step [0..<Suc n] (xs, k)) = fst (comment_step n ?st)"
    by simp
  also have "\<dots> = ?ys[n := deactivate (?ys ! n)]"
    using comment_step_fst [OF len] by (simp only: ih)
  also have "\<dots> = ?ys[n := deactivate (xs ! n)]"
    by (simp only: at)
  also have "\<dots> = map deactivate (take n xs) @ deactivate (xs ! n) # drop (Suc n) xs"
    using n by (simp add: d list_update_append)
  also have "\<dots> = map deactivate (take (Suc n) xs) @ drop (Suc n) xs"
    using n by (simp add: take_Suc_conv_app_nth)
  finally show ?case .
qed

lemma loop_snd_step:
  "n < length xs \<Longrightarrow>
   snd (fold comment_step [0..<Suc n] (xs, k)) =
     (if startswith (xs ! n) ''[General]'' then n + 1 else snd (fold comment_step [0..<n] (xs, k)))"
proof -
  assume n: "n < length xs"
  let ?st = "fold comment_step [0..<n] (xs, k)"
  have "fst ?st ! n = xs ! n"
    using n by (simp add: loop_fst nth_append)
  moreover have "snd (fold comment_step [0..<Suc n] (xs, k)) = snd (comment_step n ?st)"
    by simp
  ultimately show ?thesis by (simp only: comment_step_snd)
qed

lemma loop_snd_le:
  "n \<le> length xs \<Longrightarrow> k \<le> n \<Longrightarrow> snd (fold comment_step [0..<n] (xs, k)) \<le> n"
proof (induction n arbitrary: k)
  case 0
  then show ?case by simp
next
  case (Suc n)
  then have n: "n < length xs" by simp
  show ?case
  proof (cases "k \<le> n")
    case True
    then have "snd (fold comment_step [0..<n] (xs, k)) \<le> n" using Suc n by simp
    then show ?thesis using n by (simp only: loop_snd_step [OF n]) simp
  next
    case False
    then have k: "k = Suc n" using Suc.prems by simp
    have "snd (fold comment_step [0..<m] (xs, Suc n)) \<le> Suc n" if "m \<le> Suc n" "m \<le> length xs" for m
      using that
    proof (induction m)
      case 0
      then show ?case by simp
    next
      case (Suc m)
      then have m: "m < length xs" by simp
      from Suc show ?case by (simp only: loop_snd_step [OF m]) simp
    qed
    then show ?thesis using k Suc.prems by blast
  qed
qed

lemma loop_snd_no_general:
  "n \<le> length xs \<Longrightarrow> \<not> list_ex (\<lambda>l. startswith l ''[General]'') (take n xs) \<Longrightarrow>
   snd (fold comment_step [0..<n] (xs, k)) = k"
proof (induction n)
  case 0
  then show ?case by simp
next
  case (Suc n)
  then have n: "n < length xs" by simp
  from Suc.prems n have no: "\<not> startswith (xs ! n) ''[General]''"
    and before: "\<not> list_ex (\<lambda>l. startswith l ''[General]'') (take n xs)"
    by (simp_all add: take_Suc_conv_app_nth)
  from Suc.IH before n have "snd (fold comment_step [0..<n] (xs, k)) = k" by simp
  then show ?case using no by (simp only: loop_snd_step [OF n]) simp
qed

lemma set_server_config_lines:
  "\<exists>line \<le> length (split_nl contents).
     set_server_config contents h =
       join_nl (list_insert line (''SERVER='' @ h) (map deactivate (split_nl contents)))"
proof -
  let ?xs = "split_nl contents"
  let ?st = "fold comment_step [0..<length ?xs] (?xs, 0)"
  have f: "fst ?st = map deactivate ?xs" by (simp add: loop_fst)
  have s: "snd ?st \<le> length ?xs" by (rule loop_snd_le) simp_all
  have "set_server_config contents h =
          join_nl (list_insert (snd ?st) (''SERVER='' @ h) (fst ?st))"
    by (simp add: set_server_config_def Let_def split: prod.splits)
  with f s show ?thesis by auto
qed

lemma set_server_config_no_general:
  "\<not> list_ex (\<lambda>l. startswith l ''[General]'') (split_nl contents) \<Longrightarrow>
   set_server_config contents h =
     join_nl ((''SERVER='' @ h) # map deactivate (split_nl contents))"
proof -
  assume no: "\<not> list_ex (\<lambda>l. startswith l ''[General]'') (split_nl contents)"
  let ?xs = "split_nl contents"
  let ?st = "fold comment_step [0..<length ?xs] (?xs, 0)"
  have f: "fst ?st = map deactivate ?xs" by (simp add: loop_fst)
  have s: "snd ?st = 0" using no by (intro loop_snd_no_general) simp_all
  have "set_server_config contents h =
          join_nl (list_insert (snd ?st) (''SERVER='' @ h) (fst ?st))"
    by (simp add: set_server_config_def Let_def split: prod.splits)
  with f s show ?thesis by (simp add: list_insert_def)
qed

lemma inserted_lines_no_newline:
  "CHR 0x0A \<notin> set h \<Longrightarrow>
   list_all (\<lambda>l. CHR 0x0A \<notin> set l)
     (list_insert line (''SERVER='' @ h) (map deactivate (split_nl contents)))"
proof -
  assume h: "CHR 0x0A \<notin> set h"
  have a: "list_all (\<lambda>l. CHR 0x0A \<notin> set l) (map deactivate (split_nl contents))"
    by (auto simp: list_all_iff deactivate_no_newline split_nl_no_newline)
  have "list_all (\<lambda>l. CHR 0x0A \<notin> set l) (take line (map deactivate (split_nl contents)))"
    using a by (rule list_all_take)
  moreover have "list_all (\<lambda>l. CHR 0x0A \<notin> set l) (drop line (map deactivate (split_nl contents)))"
    using a by (rule list_all_drop)
  ultimately show ?thesis using h by (simp add: list_insert_def)
qed

lemma one_active_after_insert:
  "filter (\<lambda>l. startswith l ''SERVER='') (list_insert line (''SERVER='' @ h) (map deactivate xs))
     = [''SERVER='' @ h]"
proof -
  have none: "filter (\<lambda>l. startswith l ''SERVER='') ys = []" if "set ys \<subseteq> set (map deactivate xs)" for ys
    using that by (auto simp: filter_empty_conv deactivate_inactive)
  have "filter (\<lambda>l. startswith l ''SERVER='') (take line (map deactivate xs)) = []"
    by (rule none) (rule set_take_subset)
  moreover have "filter (\<lambda>l. startswith l ''SERVER='') (drop line (map deactivate xs)) = []"
    by (rule none) (rule set_drop_subset)
  ultimately show ?thesis
    using startswith_server [of h] by (simp add: list_insert_def)
qed

lemma set_server_config_split:
  "CHR 0x0A \<notin> set h \<Longrightarrow>
   \<exists>line \<le> length (split_nl contents).
     split_nl (set_server_config contents h) =
       list_insert line (''SERVER='' @ h) (map deactivate (split_nl contents))"
proof -
  assume h: "CHR 0x0A \<notin> set h"
  obtain line where le: "line \<le> length (split_nl contents)"
    and eq: "set_server_config contents h =
       join_nl (list_insert line (''SERVER='' @ h) (map deactivate (split_nl contents)))"
    using set_server_config_lines [of contents h] by blast
  have "list_insert line (''SERVER='' @ h) (map deactivate (split_nl contents)) \<noteq> []"
    by (simp add: list_insert_def)
  then have "split_nl (set_server_config contents h) =
       list_insert line (''SERVER='' @ h) (map deactivate (split_nl contents))"
    unfolding eq using inserted_lines_no_newline [OF h] by (rule split_nl_join_nl)
  with le show ?thesis by blast
qed

lemma active_server_lines_patched:
  "CHR 0x0A \<notin> set h \<Longrightarrow> active_server_lines (set_server_config contents h) = [''SERVER='' @ h]"
proof -
  assume h: "CHR 0x0A \<notin> set h"
  from set_server_config_split [OF h, of contents] obtain line where
    eq: "split_nl (set_server_config contents h) =
       list_insert line (''SERVER='' @ h) (map deactivate (split_nl contents))"
    by blast
  show ?thesis unfolding active_server_lines_def eq by (rule one_active_after_insert)
qed


section \<open>Claims about the configuration patch\<close>

text \<open>
  C2. Patching the document \<^verbatim>\<open>[General]\nSERVER=old\n\<close> for host \<^verbatim>\<open>1.2.3.4\<close> and
  port 8080 returns exactly \<^verbatim>\<open>[General]\nSERVER=http://1.2.3.4:8080\n#SERVER=old\n\<close>:
  the new line comes right after the \<^verbatim>\<open>[General]\<close> line and the old server line,
  now commented, stays where it was.
\<close>

theorem C2_patch_general_example:
  "set_server_config ''[General]\<newline>SERVER=old\<newline>'' (server_host_name ''1.2.3.4'' 8080)
     = ''[General]\<newline>SERVER=http://1.2.3.4:8080\<newline>#SERVER=old\<newline>'' \<and>
   edit_config ''1.2.3.4'' 8080 ''[General]\<newline>SERVER=old\<newline>''
     = ''[General]\<newline>SERVER=http://1.2.3.4:8080\<newline>#SERVER=old\<newline>''"
  by (simp add: edit_config_def set_server_config_def server_host_name_def str_int_def
        str_nat.simps comment_step_def startswith_def list_insert_def upt_rec)

text \<open>
  C3. For every document and every endpoint whose host holds no line feed, the patched
  document has exactly one line that begins with \<^verbatim>\<open>SERVER=\<close>, namely the new one;
  its lines are the old lines, each old \<^verbatim>\<open>SERVER=\<close> line now beginning with
  \<^verbatim>\<open>#SERVER=\<close> and none removed, with the new line inserted among them; and patching
  the patched document again leaves exactly one active line as well. (The hosts the
  program passes are interface addresses and validated operator input, single lines.)
\<close>

theorem C3_one_active_server_line:
  assumes "CHR 0x0A \<notin> set server_ip" and "CHR 0x0A \<notin> set server_ip2"
  shows "active_server_lines (edit_config server_ip port contents)
           = [''SERVER='' @ server_host_name server_ip port] \<and>
         (\<exists>line \<le> length (split_nl contents).
            split_nl (edit_config server_ip port contents) =
              list_insert line (''SERVER='' @ server_host_name server_ip port)
                (map deactivate (split_nl contents))) \<and>
         active_server_lines
            (edit_config server_ip2 port2 (edit_config server_ip port contents))
           = [''SERVER='' @ server_host_name server_ip2 port2]"
proof -
  have h: "CHR 0x0A \<notin> set (server_host_name server_ip port)"
    using assms(1) by (rule server_host_name_no_newline)
  have h2: "CHR 0x0A \<notin> set (server_host_name server_ip2 port2)"
    using assms(2) by (rule server_host_name_no_newline)
  have first: "active_server_lines (edit_config server_ip port contents)
                 = [''SERVER='' @ server_host_name server_ip port]"
    unfolding edit_config_def using h by (rule active_server_lines_patched)
  have lines: "\<exists>line \<le> length (split_nl contents).
            split_nl (edit_config server_ip port contents) =
              list_insert line (''SERVER='' @ server_host_name server_ip port)
                (map deactivate (split_nl contents))"
    unfolding edit_config_def using h by (rule set_server_config_split)
  have second: "active_server_lines
            (edit_config server_ip2 port2 (edit_config server_ip port contents))
           = [''SERVER='' @ server_host_name server_ip2 port2]"
    unfolding edit_config_def using h2 by (rule active_server_lines_patched)
  from first lines second show ?thesis by (intro conjI)
qed

theorem C3_one_active_server_line_witness:
  "CHR 0x0A \<notin> set ''1.2.3.4'' \<and> CHR 0x0A \<notin> set ''10.11.99.2'' \<and>
   active_server_lines (edit_config ''1.2.3.4'' 8080 ''[General]\<newline>SERVER=old\<newline>'')
     = [''SERVER='' @ server_host_name ''1.2.3.4'' 8080] \<and>
   active_server_lines
     (edit_config ''10.11.99.2'' 8080
        (edit_config ''1.2.3.4'' 8080 ''[General]\<newline>SERVER=old\<newline>''))
     = [''SERVER='' @ server_host_name ''10.11.99.2'' 8080]"
proof -
  have a: "CHR 0x0A \<notin> set ''1.2.3.4''" by simp
  have b: "CHR 0x0A \<notin> set ''10.11.99.2''" by simp
  from C3_one_active_server_line [OF a b, of 8080 "''[General]\<newline>SERVER=old\<newline>''" 8080] a b
  show ?thesis by blast
qed

text \<open>
  C6, as the claim states it, fails: for the one-line document \<^verbatim>\<open>Foo=1\<close>, which has no
  \<^verbatim>\<open>[General]\<close> line, the new line is put first, not last.
\<close>

theorem C6_no_general_counterexample:
  "\<not> list_ex (\<lambda>l. startswith l ''[General]'') (split_nl ''Foo=1'') \<and>
   set_server_config ''Foo=1'' (server_host_name ''1.2.3.4'' 8080)
     = ''SERVER=http://1.2.3.4:8080\<newline>Foo=1'' \<and>
   set_server_config ''Foo=1'' (server_host_name ''1.2.3.4'' 8080)
     \<noteq> ''Foo=1\<newline>SERVER=http://1.2.3.4:8080''"
  by (simp add: set_server_config_def server_host_name_def str_int_def str_nat.simps
        comment_step_def startswith_def list_insert_def upt_rec)

text \<open>
  C6, amended. For every document in which no line begins with \<^verbatim>\<open>[General]\<close>, the
  patch returns a document (every step of the function is defined on every string), and
  that document is the new \<^verbatim>\<open>SERVER=\<close> line, a line feed, and then the old lines in
  their order, each line that began with \<^verbatim>\<open>SERVER=\<close> now with a \<^verbatim>\<open>#\<close> in front and
  every other line unchanged: the new line is the first line, not the last.
\<close>

theorem C6_no_general_inserts_first:
  assumes "\<not> list_ex (\<lambda>l. startswith l ''[General]'') (split_nl contents)"
  shows "set_server_config contents h =
           ''SERVER='' @ h @ CHR 0x0A # join_nl (map deactivate (split_nl contents))"
proof -
  have "map deactivate (split_nl contents) \<noteq> []"
    by (simp add: split_nl_not_Nil)
  then have "join_nl ((''SERVER='' @ h) # map deactivate (split_nl contents)) =
      (''SERVER='' @ h) @ CHR 0x0A # join_nl (map deactivate (split_nl contents))"
    by (rule join_nl_Cons)
  with set_server_config_no_general [OF assms, of h] show ?thesis by simp
qed

theorem C6_no_general_inserts_first_witness:
  "\<not> list_ex (\<lambda>l. startswith l ''[General]'') (split_nl ''SERVER=old\<newline>Foo=1'') \<and>
   set_server_config ''SERVER=old\<newline>Foo=1'' ''http://1.2.3.4:8080''
     = ''SERVER=http://1.2.3.4:8080\<newline>#SERVER=old\<newline>Foo=1''"
proof -
  have a: "\<not> list_ex (\<lambda>l. startswith l ''[General]'') (split_nl ''SERVER=old\<newline>Foo=1'')"
    by (simp add: startswith_def)
  from C6_no_general_inserts_first [OF a, of "''http://1.2.3.4:8080''"] a
  show ?thesis by (simp add: deactivate_def startswith_def)
qed

section \<open>Facts about the unquoted test\<close>

lemma fields_from_plain:
  "\<not> list_ex is_ifs v \<Longrightarrow> w @ v \<noteq> [] \<Longrightarrow> fields_from w v = [w @ v]"
  by (induction v arbitrary: w) auto

lemma split_fields_plain: "plain_word v \<Longrightarrow> split_fields v = [v]"
proof -
  assume p: "plain_word v"
  then have "\<not> list_ex is_ifs v" and "[] @ v \<noteq> []"
    by (auto simp: plain_word_def list_ex_iff)
  then have "fields_from [] v = [[] @ v]" by (rule fields_from_plain)
  then show ?thesis by (simp add: split_fields_def)
qed

lemma unquoted_words_plain: "plain_word v \<Longrightarrow> unquoted_words sh v = [v]"
proof -
  assume p: "plain_word v"
  then have "\<not> list_ex is_glob_char v" by (auto simp: plain_word_def list_ex_iff)
  then show ?thesis by (simp add: unquoted_words_def split_fields_plain [OF p])
qed

lemma unquoted_words_empty: "unquoted_words sh [] = []"
  by (simp add: unquoted_words_def split_fields_def)

lemma test_eq_2_plain: "plain_word v \<Longrightarrow> test_eq_2 sh (unquoted_words sh v) = (v = ''2'')"
  by (simp add: unquoted_words_plain test_eq_2_def)

lemma strip_trailing_newlines_idem:
  "strip_trailing_newlines (strip_trailing_newlines v) = strip_trailing_newlines v"
  by (simp add: strip_trailing_newlines_def)

lemma RESTORE_CODE_log:
  "setenv_log (RESTORE_CODE sh s) =
     setenv_log s @
       [(''upgrade_available'', ''1''), (''bootcount'', ''0''),
        (''fallback_partition'', fw_printenv ''active_partition'' s),
        (''active_partition'',
         if test_eq_2 sh (unquoted_words sh (fw_printenv ''active_partition'' s))
         then ''3'' else ''2'')]"
  by (simp add: RESTORE_CODE_def fw_setenv_def fw_printenv_def echo_def Let_def)

lemma RESTORE_CODE_active:
  "uboot_env (RESTORE_CODE sh s) ''active_partition'' =
     Some (if test_eq_2 sh (unquoted_words sh (fw_printenv ''active_partition'' s))
           then ''3'' else ''2'')"
  by (simp add: RESTORE_CODE_def fw_setenv_def fw_printenv_def echo_def Let_def)

lemma RESTORE_CODE_fallback:
  "uboot_env (RESTORE_CODE sh s) ''fallback_partition''
     = Some (fw_printenv ''active_partition'' s)"
  by (simp add: RESTORE_CODE_def fw_setenv_def fw_printenv_def echo_def Let_def)

lemma plain_2: "plain_word ''2''" and plain_3: "plain_word ''3''"
  by (simp_all add: plain_word_def is_ifs_def is_glob_char_def)


section \<open>Claims about the partition swap\<close>

text \<open>
  C1. If the active partition is 2 the script leaves active = 3 and fallback = 2; if it
  is 3 the script leaves active = 2 and fallback = 3; and in every run the writes are, in
  this order, \<^verbatim>\<open>upgrade_available\<close>, \<^verbatim>\<open>bootcount\<close>, \<^verbatim>\<open>fallback_partition\<close> (the old
  active value) and then \<^verbatim>\<open>active_partition\<close> (3 when the test on the old value
  succeeds, else 2): the fallback is written before the active partition.
\<close>

theorem C1_restore_swap:
  "(uboot_env s ''active_partition'' = Some ''2'' \<longrightarrow>
      uboot_env (RESTORE_CODE sh s) ''active_partition'' = Some ''3'' \<and>
      uboot_env (RESTORE_CODE sh s) ''fallback_partition'' = Some ''2'') \<and>
   (uboot_env s ''active_partition'' = Some ''3'' \<longrightarrow>
      uboot_env (RESTORE_CODE sh s) ''active_partition'' = Some ''2'' \<and>
      uboot_env (RESTORE_CODE sh s) ''fallback_partition'' = Some ''3'') \<and>
   setenv_log (RESTORE_CODE sh s) =
     setenv_log s @
       [(''upgrade_available'', ''1''), (''bootcount'', ''0''),
        (''fallback_partition'', fw_printenv ''active_partition'' s),
        (''active_partition'',
         if test_eq_2 sh (unquoted_words sh (fw_printenv ''active_partition'' s))
         then ''3'' else ''2'')]"
proof (intro conjI impI)
  assume a: "uboot_env s ''active_partition'' = Some ''2''"
  then have v: "fw_printenv ''active_partition'' s = ''2''"
    by (simp add: fw_printenv_def strip_trailing_newlines_def)
  show "uboot_env (RESTORE_CODE sh s) ''active_partition'' = Some ''3''"
    by (simp add: RESTORE_CODE_active v test_eq_2_plain [OF plain_2])
  show "uboot_env (RESTORE_CODE sh s) ''fallback_partition'' = Some ''2''"
    by (simp add: RESTORE_CODE_fallback v)
next
  assume a: "uboot_env s ''active_partition'' = Some ''3''"
  then have v: "fw_printenv ''active_partition'' s = ''3''"
    by (simp add: fw_printenv_def strip_trailing_newlines_def)
  show "uboot_env (RESTORE_CODE sh s) ''active_partition'' = Some ''2''"
    by (simp add: RESTORE_CODE_active v test_eq_2_plain [OF plain_3])
  show "uboot_env (RESTORE_CODE sh s) ''fallback_partition'' = Some ''3''"
    by (simp add: RESTORE_CODE_fallback v)
next
  show "setenv_log (RESTORE_CODE sh s) =
     setenv_log s @
       [(''upgrade_available'', ''1''), (''bootcount'', ''0''),
        (''fallback_partition'', fw_printenv ''active_partition'' s),
        (''active_partition'',
         if test_eq_2 sh (unquoted_words sh (fw_printenv ''active_partition'' s))
         then ''3'' else ''2'')]"
    by (rule RESTORE_CODE_log)
qed

theorem C1_restore_swap_witness:
  "uboot_env (booted_from ''2'') ''active_partition'' = Some ''2'' \<and>
   uboot_env (RESTORE_CODE example_shell (booted_from ''2'')) ''active_partition'' = Some ''3'' \<and>
   uboot_env (RESTORE_CODE example_shell (booted_from ''2'')) ''fallback_partition'' = Some ''2'' \<and>
   uboot_env (booted_from ''3'') ''active_partition'' = Some ''3'' \<and>
   uboot_env (RESTORE_CODE example_shell (booted_from ''3'')) ''active_partition'' = Some ''2'' \<and>
   uboot_env (RESTORE_CODE example_shell (booted_from ''3'')) ''fallback_partition'' = Some ''3'' \<and>
   setenv_log (RESTORE_CODE example_shell (booted_from ''2'')) =
       [(''upgrade_available'', ''1''), (''bootcount'', ''0''),
        (''fallback_partition'', ''2''), (''active_partition'', ''3'')]"
proof -
  have a: "uboot_env (booted_from ''2'') ''active_partition'' = Some ''2''"
    by (simp add: booted_from_def)
  have b: "uboot_env (booted_from ''3'') ''active_partition'' = Some ''3''"
    by (simp add: booted_from_def)
  have l: "setenv_log (booted_from ''2'') = []"
    "fw_printenv ''active_partition'' (booted_from ''2'') = ''2''"
    by (simp_all add: booted_from_def fw_printenv_def strip_trailing_newlines_def)
  have t: "test_eq_2 example_shell (unquoted_words example_shell ''2'')"
    by (simp add: test_eq_2_plain [OF plain_2])
  from C1_restore_swap [of "booted_from ''2''" example_shell]
    C1_restore_swap [of "booted_from ''3''" example_shell] a b l t
  show ?thesis by simp
qed

text \<open>
  C7, as the claim states it, fails: started with the active partition 4, the script
  rejects nothing. It writes 4 as the fallback and 2 as the active partition. Started
  with the value \<^verbatim>\<open>2\<close> behind a blank, which is not 2 or 3 either, it writes that value
  as the fallback and 3 as the active partition.
\<close>

theorem C7_swap_unvalidated_counterexample:
  "fw_printenv ''active_partition'' (booted_from ''4'') = ''4'' \<and>
   uboot_env (RESTORE_CODE example_shell (booted_from ''4'')) ''active_partition'' = Some ''2'' \<and>
   uboot_env (RESTORE_CODE example_shell (booted_from ''4'')) ''fallback_partition'' = Some ''4'' \<and>
   setenv_log (RESTORE_CODE example_shell (booted_from ''4'')) =
       [(''upgrade_available'', ''1''), (''bootcount'', ''0''),
        (''fallback_partition'', ''4''), (''active_partition'', ''2'')] \<and>
   setenv_log (RESTORE_CODE example_shell (booted_from '' 2'')) =
       [(''upgrade_available'', ''1''), (''bootcount'', ''0''),
        (''fallback_partition'', '' 2''), (''active_partition'', ''3'')]"
  by (simp add: RESTORE_CODE_def fw_setenv_def fw_printenv_def echo_def Let_def booted_from_def
        strip_trailing_newlines_def unquoted_words_def split_fields_def is_ifs_def
        is_glob_char_def test_eq_2_def example_shell_def)

text \<open>
  C7, amended. For every starting value of the active partition outside 2 and 3 (an
  unset variable reads as the empty value), the script does not validate and does not
  reject: it makes the same four writes, with the old value as the fallback partition
  and then 2 or 3 as the active partition. The new active partition is 2 when the old
  value is empty or a single plain word (no blank, tab, line feed or pattern
  character), such as 4. It is 3 when the unquoted value gives the shell the one word
  2, as a 2 with blanks around it does, or the word \<^verbatim>\<open>!\<close> and a word other than 2.
\<close>

theorem C7_swap_unvalidated:
  assumes "fw_printenv ''active_partition'' s \<noteq> ''2''"
    and "fw_printenv ''active_partition'' s \<noteq> ''3''"
  shows "setenv_log (RESTORE_CODE sh s) =
           setenv_log s @
             [(''upgrade_available'', ''1''), (''bootcount'', ''0''),
              (''fallback_partition'', fw_printenv ''active_partition'' s),
              (''active_partition'',
               if test_eq_2 sh (unquoted_words sh (fw_printenv ''active_partition'' s))
               then ''3'' else ''2'')] \<and>
         fw_printenv ''fallback_partition'' (RESTORE_CODE sh s)
           = fw_printenv ''active_partition'' s \<and>
         (uboot_env (RESTORE_CODE sh s) ''active_partition'' = Some ''2'' \<or>
          uboot_env (RESTORE_CODE sh s) ''active_partition'' = Some ''3'') \<and>
         (fw_printenv ''active_partition'' s = [] \<or>
          plain_word (fw_printenv ''active_partition'' s) \<longrightarrow>
            uboot_env (RESTORE_CODE sh s) ''active_partition'' = Some ''2'') \<and>
         (unquoted_words sh (fw_printenv ''active_partition'' s) = [''2''] \<longrightarrow>
            uboot_env (RESTORE_CODE sh s) ''active_partition'' = Some ''3'') \<and>
         (length (unquoted_words sh (fw_printenv ''active_partition'' s)) = 2 \<and>
          hd (unquoted_words sh (fw_printenv ''active_partition'' s)) = ''!'' \<and>
          unquoted_words sh (fw_printenv ''active_partition'' s) ! 1 \<noteq> ''2'' \<longrightarrow>
            uboot_env (RESTORE_CODE sh s) ''active_partition'' = Some ''3'')"
proof (intro conjI impI)
  show "setenv_log (RESTORE_CODE sh s) =
           setenv_log s @
             [(''upgrade_available'', ''1''), (''bootcount'', ''0''),
              (''fallback_partition'', fw_printenv ''active_partition'' s),
              (''active_partition'',
               if test_eq_2 sh (unquoted_words sh (fw_printenv ''active_partition'' s))
               then ''3'' else ''2'')]"
    by (rule RESTORE_CODE_log)
next
  have "fw_printenv ''fallback_partition'' (RESTORE_CODE sh s)
      = strip_trailing_newlines (fw_printenv ''active_partition'' s)"
    by (simp add: fw_printenv_def [of "''fallback_partition''"] RESTORE_CODE_fallback)
  also have "\<dots> = fw_printenv ''active_partition'' s"
    by (simp add: fw_printenv_def strip_trailing_newlines_idem strip_trailing_newlines_def
          split: option.splits)
  finally show "fw_printenv ''fallback_partition'' (RESTORE_CODE sh s)
           = fw_printenv ''active_partition'' s" .
next
  show "uboot_env (RESTORE_CODE sh s) ''active_partition'' = Some ''2'' \<or>
        uboot_env (RESTORE_CODE sh s) ''active_partition'' = Some ''3''"
    by (simp add: RESTORE_CODE_active)
next
  assume "fw_printenv ''active_partition'' s = [] \<or> plain_word (fw_printenv ''active_partition'' s)"
  then show "uboot_env (RESTORE_CODE sh s) ''active_partition'' = Some ''2''"
  proof
    assume "fw_printenv ''active_partition'' s = []"
    then show ?thesis
      by (simp add: RESTORE_CODE_active unquoted_words_empty test_eq_2_def)
  next
    assume "plain_word (fw_printenv ''active_partition'' s)"
    then show ?thesis
      using assms(1) by (simp add: RESTORE_CODE_active test_eq_2_plain)
  qed
next
  assume "unquoted_words sh (fw_printenv ''active_partition'' s) = [''2'']"
  then show "uboot_env (RESTORE_CODE sh s) ''active_partition'' = Some ''3''"
    by (simp add: RESTORE_CODE_active test_eq_2_def)
next
  assume "length (unquoted_words sh (fw_printenv ''active_partition'' s)) = 2 \<and>
          hd (unquoted_words sh (fw_printenv ''active_partition'' s)) = ''!'' \<and>
          unquoted_words sh (fw_printenv ''active_partition'' s) ! 1 \<noteq> ''2''"
  then show "uboot_env (RESTORE_CODE sh s) ''active_partition'' = Some ''3''"
    by (auto simp: RESTORE_CODE_active test_eq_2_def)
qed

theorem C7_swap_unvalidated_witness:
  "fw_printenv ''active_partition'' (booted_from ''7'') \<noteq> ''2'' \<and>
   fw_printenv ''active_partition'' (booted_from ''7'') \<noteq> ''3'' \<and>
   plain_word (fw_printenv ''active_partition'' (booted_from ''7'')) \<and>
   uboot_env (RESTORE_CODE example_shell (booted_from ''7'')) ''active_partition'' = Some ''2'' \<and>
   fw_printenv ''fallback_partition'' (RESTORE_CODE example_shell (booted_from ''7'')) = ''7'' \<and>
   fw_printenv ''active_partition'' (booted_from ''2 '') \<noteq> ''2'' \<and>
   fw_printenv ''active_partition'' (booted_from ''2 '') \<noteq> ''3'' \<and>
   unquoted_words example_shell (fw_printenv ''active_partition'' (booted_from ''2 '')) = [''2''] \<and>
   uboot_env (RESTORE_CODE example_shell (booted_from ''2 '')) ''active_partition'' = Some ''3'' \<and>
   fw_printenv ''active_partition'' (booted_from ''! 3'') \<noteq> ''2'' \<and>
   fw_printenv ''active_partition'' (booted_from ''! 3'') \<noteq> ''3'' \<and>
   unquoted_words example_shell (fw_printenv ''active_partition'' (booted_from ''! 3''))
     = [''!'', ''3''] \<and>
   uboot_env (RESTORE_CODE example_shell (booted_from ''! 3'')) ''active_partition'' = Some ''3''"
proof -
  have v7: "fw_printenv ''active_partition'' (booted_from ''7'') = ''7''"
    and v2: "fw_printenv ''active_partition'' (booted_from ''2 '') = ''2 ''"
    and vn: "fw_printenv ''active_partition'' (booted_from ''! 3'') = ''! 3''"
    by (simp_all add: booted_from_def fw_printenv_def strip_trailing_newlines_def)
  have a7: "fw_printenv ''active_partition'' (booted_from ''7'') \<noteq> ''2''"
    and b7: "fw_printenv ''active_partition'' (booted_from ''7'') \<noteq> ''3''"
    by (simp_all add: v7)
  have a2: "fw_printenv ''active_partition'' (booted_from ''2 '') \<noteq> ''2''"
    and b2: "fw_printenv ''active_partition'' (booted_from ''2 '') \<noteq> ''3''"
    by (simp_all add: v2)
  have an: "fw_printenv ''active_partition'' (booted_from ''! 3'') \<noteq> ''2''"
    and bn: "fw_printenv ''active_partition'' (booted_from ''! 3'') \<noteq> ''3''"
    by (simp_all add: vn)
  have p7: "plain_word (fw_printenv ''active_partition'' (booted_from ''7''))"
    by (simp add: v7 plain_word_def is_ifs_def is_glob_char_def)
  have w2: "unquoted_words example_shell (fw_printenv ''active_partition'' (booted_from ''2 ''))
      = [''2'']"
    by (simp add: v2 unquoted_words_def split_fields_def is_ifs_def is_glob_char_def)
  have wn: "unquoted_words example_shell (fw_printenv ''active_partition'' (booted_from ''! 3''))
      = [''!'', ''3'']"
    by (simp add: vn unquoted_words_def split_fields_def is_ifs_def is_glob_char_def)
  note t7 = C7_swap_unvalidated [OF a7 b7, of example_shell]
  note t2 = C7_swap_unvalidated [OF a2 b2, of example_shell]
  note tn = C7_swap_unvalidated [OF an bn, of example_shell]
  have r7: "uboot_env (RESTORE_CODE example_shell (booted_from ''7'')) ''active_partition'' = Some ''2''"
    using t7 p7 by blast
  have f7: "fw_printenv ''fallback_partition'' (RESTORE_CODE example_shell (booted_from ''7'')) = ''7''"
    using t7 v7 by simp
  have r2: "uboot_env (RESTORE_CODE example_shell (booted_from ''2 '')) ''active_partition'' = Some ''3''"
    using t2 w2 by blast
  have rn: "uboot_env (RESTORE_CODE example_shell (booted_from ''! 3'')) ''active_partition'' = Some ''3''"
    using tn wn by simp
  from a7 b7 p7 r7 f7 a2 b2 w2 r2 an bn wn rn show ?thesis by (intro conjI)
qed


section \<open>Claims about version resolution\<close>

text \<open>
  C4, as the claim states it, fails. With the unknown device 3, the tokens
  \<^verbatim>\<open>toltec\<close> and \<^verbatim>\<open>latest\<close> resolve without any failure; a literal token fails with
  \<^verbatim>\<open>SystemError\<close> and a message that names no token, while a literal token that a
  known device's catalog lacks fails with the other kind, \<^verbatim>\<open>SystemExit\<close>.
\<close>

theorem C4_resolution_counterexample:
  "version_lookup example_updateman ''toltec'' 3 = Inr ''2.15.1.1189'' \<and>
   version_lookup example_updateman ''latest'' 3 = Inr ''3.2.3.1595'' \<and>
   version_lookup example_updateman ''9.9.9.9'' 3
     = Inl (SystemError ''Error: Invalid device given!'') \<and>
   version_lookup example_updateman ''9.9.9.9'' 2
     = Inl (SystemExit
         ''Error: Invalid version! Examples: latest, toltec, 3.2.3.1595, 2.15.0.1067'')"
  by (simp add: version_lookup_def example_updateman_def)

text \<open>
  C4, amended. For every device and every literal token (neither \<^verbatim>\<open>latest\<close> nor
  \<^verbatim>\<open>toltec\<close>), resolution fails when the device is not 1 or 2, with the invalid-device
  error, and when the device is 1 or 2 and its catalog lacks the token, with
  \<^verbatim>\<open>SystemExit\<close> and a message that lists example tokens.
\<close>

theorem C4_literal_token_failures:
  assumes "version \<noteq> ''latest''" and "version \<noteq> ''toltec''"
  shows "(device \<noteq> 1 \<and> device \<noteq> 2 \<longrightarrow>
            version_lookup U version device = Inl (SystemError ''Error: Invalid device given!'')) \<and>
         (device = 1 \<and> version \<notin> dom (id_lookups_rm1 U) \<longrightarrow>
            version_lookup U version device = Inl (SystemExit
              ''Error: Invalid version! Examples: latest, toltec, 3.2.3.1595, 2.15.0.1067'')) \<and>
         (device = 2 \<and> version \<notin> dom (id_lookups_rm2 U) \<longrightarrow>
            version_lookup U version device = Inl (SystemExit
              ''Error: Invalid version! Examples: latest, toltec, 3.2.3.1595, 2.15.0.1067''))"
  using assms by (simp add: version_lookup_def)

theorem C4_literal_token_failures_witness:
  "''9.9.9.9'' \<noteq> ''latest'' \<and> ''9.9.9.9'' \<noteq> ''toltec'' \<and>
   ''9.9.9.9'' \<notin> dom (id_lookups_rm1 example_updateman) \<and>
   ''9.9.9.9'' \<notin> dom (id_lookups_rm2 example_updateman) \<and>
   version_lookup example_updateman ''9.9.9.9'' 7
     = Inl (SystemError ''Error: Invalid device given!'') \<and>
   version_lookup example_updateman ''9.9.9.9'' 1
     = Inl (SystemExit
         ''Error: Invalid version! Examples: latest, toltec, 3.2.3.1595, 2.15.0.1067'') \<and>
   version_lookup example_updateman ''9.9.9.9'' 2
     = Inl (SystemExit
         ''Error: Invalid version! Examples: latest, toltec, 3.2.3.1595, 2.15.0.1067'')"
proof -
  have a: "''9.9.9.9'' \<noteq> ''latest''" and b: "''9.9.9.9'' \<noteq> ''toltec''" by simp_all
  have c: "''9.9.9.9'' \<notin> dom (id_lookups_rm1 example_updateman)"
    and d: "''9.9.9.9'' \<notin> dom (id_lookups_rm2 example_updateman)"
    by (simp_all add: example_updateman_def)
  from C4_literal_token_failures [OF a b, of 7 example_updateman]
    C4_literal_token_failures [OF a b, of 1 example_updateman]
    C4_literal_token_failures [OF a b, of 2 example_updateman] a b c d
  show ?thesis by simp
qed

text \<open>
  C10. For the tokens \<^verbatim>\<open>latest\<close> and \<^verbatim>\<open>toltec\<close> and any device value at all,
  \<^verbatim>\<open>version_lookup\<close> gives what the catalog's latest-version lookup gives for that
  device, or the pinned toltec version, and never the invalid-device error; that error
  is the result exactly when the token is a literal one and the device is neither 2
  nor 1.
\<close>

theorem C10_latest_toltec_skip_device_check:
  "version_lookup U ''latest'' device =
     (case get_latest_version U device of Inl msg \<Rightarrow> Inl (CatalogError msg) | Inr v \<Rightarrow> Inr v) \<and>
   version_lookup U ''toltec'' device = Inr (latest_toltec_version U) \<and>
   version_lookup U ''latest'' device \<noteq> Inl (SystemError ''Error: Invalid device given!'') \<and>
   version_lookup U ''toltec'' device \<noteq> Inl (SystemError ''Error: Invalid device given!'') \<and>
   (version_lookup U version device = Inl (SystemError ''Error: Invalid device given!''))
     = (version \<noteq> ''latest'' \<and> version \<noteq> ''toltec'' \<and> device \<noteq> 2 \<and> device \<noteq> 1)"
  by (auto simp: version_lookup_def split: sum.splits)


section \<open>Claims about the restore workflow\<close>

text \<open>
  On the device itself a status other than zero of the swap script is fatal:
  \<^verbatim>\<open>check=True\<close> raises \<^verbatim>\<open>CalledProcessError\<close> and nothing more is done.
\<close>

lemma do_restore_local_nonzero_fatal:
  assumes "isfile W ''/usr/share/remarkable/update.conf''"
    and "exit_status W RestoreScript \<noteq> 0"
    and "CHR ''y'' \<in> set (lower answer)"
  shows "do_restore W (answer # inp) ev =
           (Inl (CalledProcessError (exit_status W RestoreScript)), inp,
            ev @ [Input ''Are you sure you want to restore? (y/N): '', Run RestoreScript])"
  using assms
  by (simp add: do_restore_def bind_io_def py_input_def subprocess_run_check_def)

text \<open>
  C5 does not hold on the remote path. From a workstation connected over USB, with the
  operator confirming and the swap script ending with status 1 on the device,
  \<^verbatim>\<open>do_restore\<close> returns normally and its last line printed is the success message.
\<close>

theorem C5_remote_restore_ignores_exit_status:
  "exit_status (workstation_usb\<lparr>exit_status := (\<lambda>c. if c = RestoreScript then 1 else 0)\<rparr>)
     RestoreScript = 1 \<and>
   do_restore (workstation_usb\<lparr>exit_status := (\<lambda>c. if c = RestoreScript then 1 else 0)\<rparr>)
     [''y''] []
   = (Inr (), [],
      [Input ''Are you sure you want to restore? (y/N): '',
       Print ''Detected as USB connection'',
       Print ''Connected to device'',
       Exec ''10.11.99.1'' RestoreScript,
       Print ''Done, Please reboot the device!''])"
  by (simp add: do_restore_def bind_io_def py_input_def lower_def lower_char_def
        get_host_ip_def workstation_usb_def startswith_def connect_to_rm_def
        connect_with_auth_def)

section \<open>Facts about \<^verbatim>\<open>get_host_ip\<close>, the prompts and the events\<close>

lemma scan_snics_closed:
  "scan_snics snics acc =
     (case filter in_usb_subnet (map snd (filter (\<lambda>snic. fst snic = AF_INET) snics)) of
        [] \<Rightarrow> Inr (acc @ map snd (filter (\<lambda>snic. fst snic = AF_INET) snics))
      | a # _ \<Rightarrow> Inl [a])"
  by (induction snics arbitrary: acc) (auto simp: in_usb_subnet_def split: list.splits)

lemma scan_interfaces_closed:
  "scan_interfaces items acc =
     (case filter in_usb_subnet (ipv4_addresses items) of
        [] \<Rightarrow> acc @ ipv4_addresses items
      | a # _ \<Rightarrow> [a])"
proof (induction items arbitrary: acc)
  case Nil
  then show ?case by (simp add: ipv4_addresses_def)
next
  case (Cons item items)
  have split: "ipv4_addresses (item # items) =
      map snd (filter (\<lambda>snic. fst snic = AF_INET) (snd item)) @ ipv4_addresses items"
    by (simp add: ipv4_addresses_def)
  show ?case
    by (simp add: split scan_snics_closed Cons.IH split: list.splits)
qed

lemma get_host_ip_closed:
  "net_if_addrs W = Some items \<Longrightarrow>
   get_host_ip W =
     (case filter in_usb_subnet (ipv4_addresses items) of
        [] \<Rightarrow> ipv4_addresses items
      | a # _ \<Rightarrow> [a])"
  by (simp add: get_host_ip_def scan_interfaces_closed split: list.splits)

lemma get_host_ip_usb:
  "net_if_addrs W = Some items \<Longrightarrow> list_ex in_usb_subnet (ipv4_addresses items) \<Longrightarrow>
   get_host_ip W = [hd (filter in_usb_subnet (ipv4_addresses items))]"
  by (auto simp: get_host_ip_closed list_ex_iff filter_empty_conv split: list.splits)

lemma get_host_ip_no_usb:
  "net_if_addrs W = Some items \<Longrightarrow> \<not> list_ex in_usb_subnet (ipv4_addresses items) \<Longrightarrow>
   get_host_ip W = ipv4_addresses items"
  by (auto simp: get_host_ip_closed list_ex_iff split: list.splits)

text \<open>The events of a computation extend the events it starts from.\<close>

lemma events_of_triple [simp]: "events_of (r, inp, ev) = ev"
  by (simp add: events_of_def)

lemma get_remarkable_ip_prefix: "prefix ev (events_of (get_remarkable_ip inp ev))"
proof (induction inp ev rule: get_remarkable_ip.induct)
  case (1 ev)
  then show ?case by simp
next
  case (2 remote_ip ev)
  then show ?case by simp
next
  case (3 remote_ip answer inp ev)
  then show ?case by (auto simp: Let_def dest: append_prefixD)
qed

lemma key_loop_prefix: "prefix ev (events_of (key_loop W ip inp ev))"
proof (induction W ip inp ev rule: key_loop.induct)
  case (1 W ip ev)
  then show ?case by simp
next
  case (2 W ip key_path inp ev)
  then show ?case
    by (auto simp: Let_def split: connect_outcome.splits dest: append_prefixD)
qed

lemma password_loop_prefix: "prefix ev (events_of (password_loop W ip inp ev))"
proof (induction W ip inp ev rule: password_loop.induct)
  case (1 W ip ev)
  then show ?case by simp
next
  case (2 W ip password inp ev)
  then show ?case
    by (auto simp: Let_def split: connect_outcome.splits dest: append_prefixD)
qed

lemma ask_server_host_prefix: "prefix ev (events_of (ask_server_host listed inp ev))"
proof (induction listed inp ev rule: ask_server_host.induct)
  case (1 listed ev)
  then show ?case by simp
next
  case (2 listed server_host inp ev)
  let ?ev' = "ev @ [Input ''\<newline>Please enter your IP for the network the device is connected to: '']"
  show ?case
  proof (cases "server_host \<in> set listed")
    case False
    have "prefix (?ev' @ [Print ''Error: Invalid IP given''])
            (events_of (ask_server_host listed inp (?ev' @ [Print ''Error: Invalid IP given''])))"
      using 2(1) [OF refl False] .
    then have "prefix ev (events_of (ask_server_host listed inp (?ev' @ [Print ''Error: Invalid IP given''])))"
      by (simp only: append_assoc) (rule append_prefixD)
    then show ?thesis using False by (simp add: Let_def)
  next
    case True
    show ?thesis
    proof (cases inp)
      case Nil
      then show ?thesis using True by (simp add: Let_def)
    next
      case (Cons answer inp')
      show ?thesis
      proof (cases "CHR ''n'' \<in> set (lower answer)")
        case no: False
        then show ?thesis using True Cons by (simp add: Let_def)
      next
        case yes: True
        have t: "\<not> server_host \<notin> set listed" using True by simp
        have "prefix (?ev' @ [Input ''Are you sure? (Y/n): ''])
            (events_of (ask_server_host listed inp' (?ev' @ [Input ''Are you sure? (Y/n): ''])))"
          using 2(2) [OF refl t Cons yes] .
        then have "prefix ev (events_of (ask_server_host listed inp' (?ev' @ [Input ''Are you sure? (Y/n): ''])))"
          by (simp only: append_assoc) (rule append_prefixD)
        then show ?thesis using True Cons yes by (simp add: Let_def)
      qed
    qed
  qed
qed

lemma bind_io_prefix:
  assumes "prefix p (events_of m)"
    and "\<And>x inp ev. prefix ev (events_of (f x inp ev))"
  shows "prefix p (events_of (bind_io m f))"
proof (cases m)
  case (fields r inp ev)
  show ?thesis
  proof (cases r)
    case (Inl e)
    with fields assms(1) show ?thesis by (simp add: bind_io_def)
  next
    case (Inr x)
    have "prefix ev (events_of (f x inp ev))" by (rule assms(2))
    moreover have "prefix p ev" using assms(1) fields by simp
    ultimately have "prefix p (events_of (f x inp ev))" by (rule prefix_order.trans [rotated])
    with fields Inr show ?thesis by (simp add: bind_io_def)
  qed
qed

lemma py_input_prefix: "prefix (ev @ [Input p]) (events_of (py_input p inp ev))"
  by (simp add: py_input_def split: list.splits)

lemma connect_loops_prefix:
  "prefix ev
     (events_of
        (bind_io (if b then key_loop W ip inp ev else password_loop W ip inp ev)
           (\<lambda>client inp ev. (Inr client, inp, ev @ [Print ''Connected to device'']))))"
  by (rule bind_io_prefix) (simp_all add: key_loop_prefix password_loop_prefix)

lemma connect_asked_prefix:
  "prefix ev
     (events_of
        (bind_io (py_input ''Would you like to use a password to connect? (Y/n): '' inp ev)
           (\<lambda>answer inp ev.
              bind_io (if CHR ''n'' \<in> set (lower answer) then key_loop W ip inp ev
                       else password_loop W ip inp ev)
                (\<lambda>client inp ev. (Inr client, inp, ev @ [Print ''Connected to device''])))))"
proof (rule bind_io_prefix)
  show "prefix ev
    (events_of (py_input ''Would you like to use a password to connect? (Y/n): '' inp ev))"
    by (rule append_prefixD [OF py_input_prefix])
next
  fix answer inp' ev'
  show "prefix ev'
    (events_of
       (bind_io (if CHR ''n'' \<in> set (lower answer) then key_loop W ip inp' ev'
                 else password_loop W ip inp' ev')
          (\<lambda>client inp ev. (Inr client, inp, ev @ [Print ''Connected to device'']))))"
    by (rule connect_loops_prefix)
qed

lemma connect_to_rm_prefix: "prefix ev (events_of (connect_to_rm W ip inp ev))"
proof (cases "connect_with_auth W ip inp ev")
  case (Pair r ev1)
  show ?thesis
  proof (cases r)
    case None
    have p: "prefix ev ev1"
      using Pair None
      by (auto simp: connect_with_auth_def split: option.splits if_splits connect_outcome.splits)
    have "prefix ev1 (events_of (connect_to_rm W ip inp ev))"
      using connect_asked_prefix [of ev1 inp W ip] Pair None by (simp add: connect_to_rm_def)
    with p show ?thesis by (rule prefix_order.trans)
  next
    case (Some d)
    then have "prefix ev (events_of d)"
      using Pair
      by (auto simp: connect_with_auth_def split: option.splits if_splits connect_outcome.splits)
    then show ?thesis using Pair Some by (simp add: connect_to_rm_def)
  qed
qed

lemma key_loop_inputs:
  "Input p \<in> set (events_of (key_loop W ip inp ev)) \<Longrightarrow>
   Input p \<in> set ev \<or> p = ''Enter path to SSH key: ''"
proof (induction W ip inp ev rule: key_loop.induct)
  case (1 W ip ev)
  then show ?case by auto
next
  case (2 W ip key_path inp ev)
  then show ?case
    by (auto simp: Let_def split: if_splits connect_outcome.splits)
qed

lemma password_loop_inputs:
  "Input p \<in> set (events_of (password_loop W ip inp ev)) \<Longrightarrow>
   Input p \<in> set ev \<or> p = ''Enter RM SSH password: ''"
proof (induction W ip inp ev rule: password_loop.induct)
  case (1 W ip ev)
  then show ?case by auto
next
  case (2 W ip password inp ev)
  then show ?case
    by (auto simp: Let_def split: if_splits connect_outcome.splits)
qed

lemma bind_io_pure_events:
  "events_of (bind_io m (\<lambda>x inp ev. (Inr (g x), inp, ev))) = events_of m"
proof (cases m)
  case (fields r inp ev)
  then show ?thesis by (cases r) (simp_all add: bind_io_def)
qed

lemma bind_io_print_events:
  "Input p \<in> set (events_of (bind_io m (\<lambda>x inp ev. (Inr (g x), inp, ev @ [Print l])))) \<Longrightarrow>
   Input p \<in> set (events_of m)"
proof (cases m)
  case (fields r inp ev)
  assume "Input p \<in> set (events_of (bind_io m (\<lambda>x inp ev. (Inr (g x), inp, ev @ [Print l]))))"
  with fields show ?thesis by (cases r) (simp_all add: bind_io_def)
qed

lemma connect_to_rm_inputs:
  assumes "Input p \<in> set (events_of (connect_to_rm W ip inp ev))"
  shows "Input p \<in> set ev \<or> p = ''Would you like to use a password to connect? (Y/n): '' \<or>
         p = ''Enter path to SSH key: '' \<or> p = ''Enter RM SSH password: ''"
proof (cases "connect_with_auth W ip inp ev")
  case (Pair r ev1)
  have ev1: "Input p \<in> set ev1 \<Longrightarrow> Input p \<in> set ev"
    using Pair
    by (auto simp: connect_with_auth_def split: option.splits if_splits connect_outcome.splits)
  show ?thesis
  proof (cases r)
    case (Some d)
    then have "events_of d = ev \<or> events_of d = ev @ [Print ''Connected to device'']"
      using Pair
      by (auto simp: connect_with_auth_def split: option.splits if_splits connect_outcome.splits)
    moreover have "Input p \<in> set (events_of d)"
      using assms Pair Some by (simp add: connect_to_rm_def)
    ultimately show ?thesis by auto
  next
    case None
    let ?q = "''Would you like to use a password to connect? (Y/n): ''"
    show ?thesis
    proof (cases inp)
      case Nil
      then have "events_of (connect_to_rm W ip inp ev) = ev1 @ [Input ?q]"
        using Pair None by (simp add: connect_to_rm_def py_input_def bind_io_def)
      with assms ev1 show ?thesis by auto
    next
      case (Cons answer inp')
      let ?ev2 = "ev1 @ [Input ?q]"
      have run: "connect_to_rm W ip inp ev =
          bind_io (if CHR ''n'' \<in> set (lower answer) then key_loop W ip inp' ?ev2
                   else password_loop W ip inp' ?ev2)
            (\<lambda>client inp ev. (Inr client, inp, ev @ [Print ''Connected to device'']))"
        using Pair None Cons by (simp add: connect_to_rm_def py_input_def bind_io_def)
      have "Input p \<in> set (events_of (if CHR ''n'' \<in> set (lower answer) then key_loop W ip inp' ?ev2
                   else password_loop W ip inp' ?ev2))"
        using assms unfolding run by (rule bind_io_print_events)
      then have "Input p \<in> set ?ev2 \<or> p = ''Enter path to SSH key: '' \<or> p = ''Enter RM SSH password: ''"
        using key_loop_inputs [of p W ip inp' ?ev2] password_loop_inputs [of p W ip inp' ?ev2]
        by (cases "CHR ''n'' \<in> set (lower answer)") auto
      with ev1 show ?thesis by auto
    qed
  qed
qed

lemma ask_server_host_first:
  "prefix (ev @ [Input ''\<newline>Please enter your IP for the network the device is connected to: ''])
     (events_of (ask_server_host listed inp ev))"
proof (cases inp)
  case Nil
  then show ?thesis by simp
next
  case (Cons server_host inp')
  let ?ev' = "ev @ [Input ''\<newline>Please enter your IP for the network the device is connected to: '']"
  show ?thesis
  proof (cases "server_host \<in> set listed")
    case False
    have "prefix (?ev' @ [Print ''Error: Invalid IP given''])
            (events_of (ask_server_host listed inp' (?ev' @ [Print ''Error: Invalid IP given''])))"
      by (rule ask_server_host_prefix)
    then have "prefix ?ev' (events_of (ask_server_host listed inp' (?ev' @ [Print ''Error: Invalid IP given''])))"
      by (rule append_prefixD)
    then show ?thesis using False Cons by (simp add: Let_def)
  next
    case True
    show ?thesis
    proof (cases inp')
      case Nil
      then show ?thesis using True Cons by (simp add: Let_def)
    next
      case (Cons answer inp'')
      note inner = Cons
      show ?thesis
      proof (cases "CHR ''n'' \<in> set (lower answer)")
        case False
        then show ?thesis using True \<open>inp = server_host # inp'\<close> inner by (simp add: Let_def)
      next
        case yes: True
        have "prefix (?ev' @ [Input ''Are you sure? (Y/n): ''])
            (events_of (ask_server_host listed inp'' (?ev' @ [Input ''Are you sure? (Y/n): ''])))"
          by (rule ask_server_host_prefix)
        then have "prefix ?ev' (events_of (ask_server_host listed inp'' (?ev' @ [Input ''Are you sure? (Y/n): ''])))"
          by (rule append_prefixD)
        then show ?thesis using True \<open>inp = server_host # inp'\<close> inner yes by (simp add: Let_def)
      qed
    qed
  qed
qed




section \<open>Claims about the install workflow\<close>

text \<open>
  C8, as the claim states it, fails in the direction from the path taken to the number
  of candidates. With two addresses in the USB subnet the workflow takes the first one
  and connects to the fixed USB address without asking anything; and with no address in
  the USB subnet and a single address in all (here only the loopback address) it takes
  the same path.
\<close>

theorem C8_usb_path_counterexample:
  "filter in_usb_subnet
     (ipv4_addresses [(''usb0'', [(AF_INET, ''10.11.99.2'')]), (''usb1'', [(AF_INET, ''10.11.99.3'')])])
     = [''10.11.99.2'', ''10.11.99.3''] \<and>
   do_install_topology
     (workstation_usb\<lparr>net_if_addrs :=
        Some [(''usb0'', [(AF_INET, ''10.11.99.2'')]), (''usb1'', [(AF_INET, ''10.11.99.3'')])]\<rparr>)
     [] []
     = (Inr (''10.11.99.2'', Some ''10.11.99.1''), [], [Print ''Connected to device'']) \<and>
   filter in_usb_subnet (ipv4_addresses [(''lo'', [(AF_INET, ''127.0.0.1'')])]) = [] \<and>
   do_install_topology
     (workstation_usb\<lparr>net_if_addrs := Some [(''lo'', [(AF_INET, ''127.0.0.1'')])]\<rparr>)
     [] []
     = (Inr (''127.0.0.1'', Some ''10.11.99.1''), [], [Print ''Connected to device''])"
  by (simp add: do_install_topology_def get_host_ip_def workstation_usb_def startswith_def
        connect_to_rm_def connect_with_auth_def bind_io_def ipv4_addresses_def in_usb_subnet_def)

text \<open>
  C8, amended. In the install workflow run from a workstation: whenever at least one
  enumerated IPv4 address lies in the USB subnet, the first such address becomes the
  server host and the session is made to the fixed address \<^verbatim>\<open>10.11.99.1\<close>, and the
  operator is asked neither for the workstation's address nor for the device's address;
  when no address lies in the USB subnet and the number of enumerated IPv4 addresses is
  not one, the workflow prints the list and asks first for the workstation's address,
  then for the device's address, and connects to the address given. (The case of a
  single address outside the USB subnet is left out.)
\<close>

theorem C8_usb_path_choice:
  assumes "\<not> is_rm W" and "remote_deps_met W" and "net_if_addrs W = Some items"
  shows
    "(list_ex in_usb_subnet (ipv4_addresses items) \<longrightarrow>
        do_install_topology W inp ev =
          bind_io (connect_to_rm W ''10.11.99.1'' inp ev)
            (\<lambda>remarkable_remote inp ev.
               (Inr (hd (filter in_usb_subnet (ipv4_addresses items)), Some remarkable_remote),
                inp, ev)) \<and>
        (Input ''\<newline>Please enter your IP for the network the device is connected to: ''
           \<in> set (events_of (do_install_topology W inp ev))
         \<longrightarrow> Input ''\<newline>Please enter your IP for the network the device is connected to: ''
               \<in> set ev) \<and>
        (Input ''Please enter the IP of the remarkable device: ''
           \<in> set (events_of (do_install_topology W inp ev))
         \<longrightarrow> Input ''Please enter the IP of the remarkable device: '' \<in> set ev)) \<and>
     (\<not> list_ex in_usb_subnet (ipv4_addresses items) \<and> length (ipv4_addresses items) \<noteq> 1 \<longrightarrow>
        do_install_topology W inp ev =
          bind_io
            (ask_server_host (split_nl (join_nl (ipv4_addresses items))) inp
               (ev @ [Print (''\<newline>'' @ join_nl (ipv4_addresses items) @
                  ''\<newline>Could not find USB interface, assuming connected over WiFi (interfaces list above)'')]))
            (\<lambda>server_host inp ev.
               bind_io (get_remarkable_ip inp ev)
                 (\<lambda>remote_ip inp ev.
                    bind_io (connect_to_rm W remote_ip inp ev)
                      (\<lambda>remarkable_remote inp ev.
                         (Inr (server_host, Some remarkable_remote), inp, ev)))) \<and>
        prefix
          (ev @ [Print (''\<newline>'' @ join_nl (ipv4_addresses items) @
                   ''\<newline>Could not find USB interface, assuming connected over WiFi (interfaces list above)''),
                 Input ''\<newline>Please enter your IP for the network the device is connected to: ''])
          (events_of (do_install_topology W inp ev)))"
proof (intro conjI impI)
  assume usb: "list_ex in_usb_subnet (ipv4_addresses items)"
  have g: "get_host_ip W = [hd (filter in_usb_subnet (ipv4_addresses items))]"
    using assms(3) usb by (rule get_host_ip_usb)
  show run: "do_install_topology W inp ev =
          bind_io (connect_to_rm W ''10.11.99.1'' inp ev)
            (\<lambda>remarkable_remote inp ev.
               (Inr (hd (filter in_usb_subnet (ipv4_addresses items)), Some remarkable_remote),
                inp, ev))"
    using assms(1,2) by (simp add: do_install_topology_def g)
  have same: "events_of (do_install_topology W inp ev) = events_of (connect_to_rm W ''10.11.99.1'' inp ev)"
    unfolding run by (rule bind_io_pure_events)
  {
    assume "Input ''\<newline>Please enter your IP for the network the device is connected to: ''
           \<in> set (events_of (do_install_topology W inp ev))"
    then have "Input ''\<newline>Please enter your IP for the network the device is connected to: ''
           \<in> set (events_of (connect_to_rm W ''10.11.99.1'' inp ev))"
      by (simp only: same)
    from connect_to_rm_inputs [OF this]
    show "Input ''\<newline>Please enter your IP for the network the device is connected to: '' \<in> set ev"
      by simp
  }
  {
    assume "Input ''Please enter the IP of the remarkable device: ''
           \<in> set (events_of (do_install_topology W inp ev))"
    then have "Input ''Please enter the IP of the remarkable device: ''
           \<in> set (events_of (connect_to_rm W ''10.11.99.1'' inp ev))"
      by (simp only: same)
    from connect_to_rm_inputs [OF this]
    show "Input ''Please enter the IP of the remarkable device: '' \<in> set ev"
      by simp
  }
next
  assume wifi: "\<not> list_ex in_usb_subnet (ipv4_addresses items) \<and> length (ipv4_addresses items) \<noteq> 1"
  then have g: "get_host_ip W = ipv4_addresses items"
    using assms(3) by (simp add: get_host_ip_no_usb)
  let ?msg = "''\<newline>'' @ join_nl (ipv4_addresses items) @
                  ''\<newline>Could not find USB interface, assuming connected over WiFi (interfaces list above)''"
  let ?k = "\<lambda>server_host inp ev.
               bind_io (get_remarkable_ip inp ev)
                 (\<lambda>remote_ip inp ev.
                    bind_io (connect_to_rm W remote_ip inp ev)
                      (\<lambda>remarkable_remote inp ev.
                         (Inr (server_host, Some remarkable_remote), inp, ev)))"
  show run: "do_install_topology W inp ev =
          bind_io
            (ask_server_host (split_nl (join_nl (ipv4_addresses items))) inp (ev @ [Print ?msg])) ?k"
    using assms(1,2) wifi by (simp add: do_install_topology_def g Let_def)
  have k: "prefix ev' (events_of (?k server_host inp' ev'))" for server_host :: string and inp' ev'
  proof (rule bind_io_prefix)
    show "prefix ev' (events_of (get_remarkable_ip inp' ev'))" by (rule get_remarkable_ip_prefix)
  next
    fix remote_ip inp'' ev''
    show "prefix ev'' (events_of (bind_io (connect_to_rm W remote_ip inp'' ev'')
                      (\<lambda>remarkable_remote inp ev.
                         (Inr (server_host, Some remarkable_remote), inp, ev))))"
      by (simp only: bind_io_pure_events connect_to_rm_prefix)
  qed
  have "prefix ((ev @ [Print ?msg]) @
                 [Input ''\<newline>Please enter your IP for the network the device is connected to: ''])
          (events_of (bind_io
            (ask_server_host (split_nl (join_nl (ipv4_addresses items))) inp (ev @ [Print ?msg])) ?k))"
    using ask_server_host_first k by (rule bind_io_prefix)
  then show "prefix
          (ev @ [Print ?msg,
                 Input ''\<newline>Please enter your IP for the network the device is connected to: ''])
          (events_of (do_install_topology W inp ev))"
    unfolding run by simp
qed

theorem C8_usb_path_choice_witness:
  "\<not> is_rm workstation_usb \<and> remote_deps_met workstation_usb \<and>
   list_ex in_usb_subnet
     (ipv4_addresses [(''lo'', [(AF_INET, ''127.0.0.1'')]),
        (''usb0'', [(AF_PACKET, ''aa:bb:cc:dd:ee:ff''), (AF_INET, ''10.11.99.2'')])]) \<and>
   do_install_topology workstation_usb [] [] =
     (Inr (''10.11.99.2'', Some ''10.11.99.1''), [], [Print ''Connected to device'']) \<and>
   \<not> is_rm workstation_wifi \<and> remote_deps_met workstation_wifi \<and>
   \<not> list_ex in_usb_subnet
     (ipv4_addresses [(''lo'', [(AF_INET, ''127.0.0.1'')]), (''wlan0'', [(AF_INET, ''192.168.1.5'')])]) \<and>
   length (ipv4_addresses
     [(''lo'', [(AF_INET, ''127.0.0.1'')]), (''wlan0'', [(AF_INET, ''192.168.1.5'')])]) \<noteq> 1 \<and>
   prefix
     [Print ''\<newline>127.0.0.1\<newline>192.168.1.5\<newline>Could not find USB interface, assuming connected over WiFi (interfaces list above)'',
      Input ''\<newline>Please enter your IP for the network the device is connected to: '']
     (events_of (do_install_topology workstation_wifi [] []))"
proof -
  let ?usb = "[(''lo'', [(AF_INET, ''127.0.0.1'')]),
        (''usb0'', [(AF_PACKET, ''aa:bb:cc:dd:ee:ff''), (AF_INET, ''10.11.99.2'')])]"
  let ?wifi = "[(''lo'', [(AF_INET, ''127.0.0.1'')]), (''wlan0'', [(AF_INET, ''192.168.1.5'')])]"
  have u1: "\<not> is_rm workstation_usb" and u2: "remote_deps_met workstation_usb"
    and u3: "net_if_addrs workstation_usb = Some ?usb"
    by (simp_all add: workstation_usb_def)
  have w1: "\<not> is_rm workstation_wifi" and w2: "remote_deps_met workstation_wifi"
    and w3: "net_if_addrs workstation_wifi = Some ?wifi"
    by (simp_all add: workstation_wifi_def workstation_usb_def)
  have addrs_usb: "ipv4_addresses ?usb = [''127.0.0.1'', ''10.11.99.2'']"
    by (simp add: ipv4_addresses_def)
  have addrs_wifi: "ipv4_addresses ?wifi = [''127.0.0.1'', ''192.168.1.5'']"
    by (simp add: ipv4_addresses_def)
  have usb: "list_ex in_usb_subnet (ipv4_addresses ?usb)"
    by (simp add: addrs_usb in_usb_subnet_def startswith_def)
  have wifi: "\<not> list_ex in_usb_subnet (ipv4_addresses ?wifi) \<and> length (ipv4_addresses ?wifi) \<noteq> 1"
    by (simp add: addrs_wifi in_usb_subnet_def startswith_def)
  have first: "hd (filter in_usb_subnet (ipv4_addresses ?usb)) = ''10.11.99.2''"
    by (simp add: addrs_usb in_usb_subnet_def startswith_def)
  have conn: "connect_to_rm workstation_usb ''10.11.99.1'' [] []
      = (Inr ''10.11.99.1'', [], [Print ''Connected to device''])"
    by (simp add: connect_to_rm_def connect_with_auth_def workstation_usb_def)
  note a = conjunct1 [OF mp [OF conjunct1 [OF C8_usb_path_choice [OF u1 u2 u3, of "[]" "[]"]] usb]]
  have A: "do_install_topology workstation_usb [] [] =
     (Inr (''10.11.99.2'', Some ''10.11.99.1''), [], [Print ''Connected to device''])"
    unfolding a first conn by (simp add: bind_io_def)
  note b = conjunct2 [OF mp [OF conjunct2 [OF C8_usb_path_choice [OF w1 w2 w3, of "[]" "[]"]] wifi]]
  have B: "prefix
     [Print ''\<newline>127.0.0.1\<newline>192.168.1.5\<newline>Could not find USB interface, assuming connected over WiFi (interfaces list above)'',
      Input ''\<newline>Please enter your IP for the network the device is connected to: '']
     (events_of (do_install_topology workstation_wifi [] []))"
    using b by (simp add: addrs_wifi)
  from u1 u2 usb A w1 w2 wifi B show ?thesis by (intro conjI) simp_all
qed

text \<open>Once started, the server thread runs after every later event.\<close>

lemma server_thread_running_started:
  "server_thread_running (xs @ ServerThreadStart h # ys)"
proof (induction xs)
  case Nil
  then show ?case by simp
next
  case (Cons e xs)
  then show ?case by (cases e) simp_all
qed

lemma server_thread_running_prefix:
  "prefix (xs @ [ServerThreadStart h]) evs \<Longrightarrow> server_thread_running evs"
  by (auto simp: prefix_def server_thread_running_started)

lemma do_install_update_prefix:
  "prefix (ev @ [ServerThreadStart server_host])
     (events_of (do_install_update W server_host remarkable_remote inp ev))"
  by (cases remarkable_remote)
    (auto simp: do_install_update_def Let_def bind_io_def subprocess_run_check_def py_input_def
       split: list.splits)

text \<open>
  C9, as the claim states it, fails in its last part. When the update client ends with
  status 1 and the standard error text \<^verbatim>\<open>payload hash mismatch\<close>, the workflow prints
  that text and raises \<^verbatim>\<open>SystemExit\<close>, but the events end there: the server thread
  that was started is not stopped.
\<close>

theorem C9_update_failure_counterexample:
  "do_install_update workstation_update_fails ''10.11.99.2'' (Some ''10.11.99.1'') [] []
   = (Inl (SystemExit ''There was an error updating :(''), [],
      [ServerThreadStart ''10.11.99.2'',
       Print ''Checking if device can reach server'',
       Exec ''10.11.99.1'' (ReachabilityProbe ''10.11.99.2''),
       Print ''Starting update service on device'',
       Exec ''10.11.99.1'' StartUpdateEngine,
       Exec ''10.11.99.1'' UpdateEngineClient,
       Print ''payload hash mismatch'']) \<and>
   server_thread_running
     (events_of
        (do_install_update workstation_update_fails ''10.11.99.2'' (Some ''10.11.99.1'') [] []))"
  by (simp add: do_install_update_def workstation_update_fails_def workstation_usb_def Let_def)

text \<open>
  C9, amended. If the update client ends with a status other than zero, the install
  workflow fails with \<^verbatim>\<open>SystemExit\<close> (message \<^verbatim>\<open>There was an error updating :(\<close>)
  and the last thing it does is print the standard error text of the client as it was
  captured: over a session when the reachability probe succeeded, and on the device
  itself when the update service started. It does not stop the update server: the
  thread started at the beginning of this part is still running when it ends, on
  every path.
\<close>

theorem C9_update_failure:
  assumes "exit_status W UpdateEngineClient \<noteq> 0"
  shows
    "(exit_status W (ReachabilityProbe server_host) = 0 \<longrightarrow>
        do_install_update W server_host (Some remote) inp ev =
          (Inl (SystemExit ''There was an error updating :(''), inp,
           ev @ [ServerThreadStart server_host,
                 Print ''Checking if device can reach server'',
                 Exec remote (ReachabilityProbe server_host),
                 Print ''Starting update service on device'',
                 Exec remote StartUpdateEngine,
                 Exec remote UpdateEngineClient,
                 Print (stderr_text W UpdateEngineClient)])) \<and>
     (exit_status W StartUpdateEngine = 0 \<longrightarrow>
        do_install_update W server_host None inp ev =
          (Inl (SystemExit ''There was an error updating :(''), inp,
           ev @ [ServerThreadStart server_host,
                 Print ''Enabling update service'',
                 Run StartUpdateEngine,
                 Run UpdateEngineClient,
                 Print (stderr_text W UpdateEngineClient)])) \<and>
     server_thread_running
       (events_of (do_install_update W server_host remarkable_remote inp ev))"
proof (intro conjI impI)
  assume "exit_status W (ReachabilityProbe server_host) = 0"
  then show "do_install_update W server_host (Some remote) inp ev =
          (Inl (SystemExit ''There was an error updating :(''), inp,
           ev @ [ServerThreadStart server_host,
                 Print ''Checking if device can reach server'',
                 Exec remote (ReachabilityProbe server_host),
                 Print ''Starting update service on device'',
                 Exec remote StartUpdateEngine,
                 Exec remote UpdateEngineClient,
                 Print (stderr_text W UpdateEngineClient)])"
    using assms by (simp add: do_install_update_def Let_def)
next
  assume "exit_status W StartUpdateEngine = 0"
  then show "do_install_update W server_host None inp ev =
          (Inl (SystemExit ''There was an error updating :(''), inp,
           ev @ [ServerThreadStart server_host,
                 Print ''Enabling update service'',
                 Run StartUpdateEngine,
                 Run UpdateEngineClient,
                 Print (stderr_text W UpdateEngineClient)])"
    using assms by (simp add: do_install_update_def Let_def bind_io_def subprocess_run_check_def)
next
  show "server_thread_running
       (events_of (do_install_update W server_host remarkable_remote inp ev))"
    using do_install_update_prefix by (rule server_thread_running_prefix)
qed

theorem C9_update_failure_witness:
  "exit_status workstation_update_fails UpdateEngineClient \<noteq> 0 \<and>
   exit_status workstation_update_fails (ReachabilityProbe ''10.11.99.2'') = 0 \<and>
   exit_status workstation_update_fails StartUpdateEngine = 0 \<and>
   fst (do_install_update workstation_update_fails ''10.11.99.2'' (Some ''10.11.99.1'') [] [])
     = Inl (SystemExit ''There was an error updating :('') \<and>
   last (events_of
      (do_install_update workstation_update_fails ''10.11.99.2'' (Some ''10.11.99.1'') [] []))
     = Print ''payload hash mismatch'' \<and>
   fst (do_install_update workstation_update_fails ''0.0.0.0'' None [] [])
     = Inl (SystemExit ''There was an error updating :('') \<and>
   last (events_of (do_install_update workstation_update_fails ''0.0.0.0'' None [] []))
     = Print ''payload hash mismatch''"
proof -
  have c: "exit_status workstation_update_fails UpdateEngineClient \<noteq> 0"
    and p: "exit_status workstation_update_fails (ReachabilityProbe ''10.11.99.2'') = 0"
    and s: "exit_status workstation_update_fails StartUpdateEngine = 0"
    and e: "stderr_text workstation_update_fails UpdateEngineClient = ''payload hash mismatch''"
    by (simp_all add: workstation_update_fails_def workstation_usb_def)
  note r = mp [OF conjunct1 [OF C9_update_failure [OF c, of "''10.11.99.2''" "''10.11.99.1''" "[]" "[]"]] p]
  note l = mp [OF conjunct1 [OF conjunct2 [OF C9_update_failure [OF c, of _ _ "[]" "[]"]]] s]
  show ?thesis
    using c p s by (simp add: r l e)
qed

end
